theory Spec2Isabelle
  imports Complex_Main "HOL-Library.Sublist"
begin
section \<open>Errors, dictionaries and arrays\<close>

text \<open>
  Every exception the modelled Python can raise is a value of \<open>error\<close>; a function that
  can raise returns \<open>error + 'a\<close> with \<open>Inl\<close> for the exception.  Array entries are
  modelled as real numbers, so the rounding of IEEE floating point (and NaN) is outside
  the model; the only weights the tensor and constraint builders write are 1.0 and 0.5,
  which are exact in both worlds.
\<close>

datatype error = ValueError string | TypeError string | KeyError | IndexError | LinAlgError

text \<open>
  A Python \<open>dict\<close> keeps its keys in insertion order; storing under a key that is already
  present replaces the value and keeps the key's position.
\<close>

fun dict_set :: "'k \<Rightarrow> 'v \<Rightarrow> ('k \<times> 'v) list \<Rightarrow> ('k \<times> 'v) list" where
  "dict_set k v [] = [(k, v)]"
| "dict_set k v ((k', v') # d) = (if k' = k then (k', v) # d else (k', v') # dict_set k v d)"

definition dict_of :: "('k \<times> 'v) list \<Rightarrow> ('k \<times> 'v) list" where
  \<comment> \<open>a dict comprehension: the pairs are stored from left to right\<close>
  "dict_of kvs = foldl (\<lambda>d (k, v). dict_set k v d) [] kvs"

definition dict_get :: "('k \<times> 'v) list \<Rightarrow> 'k \<Rightarrow> error + 'v" where
  \<comment> \<open>\<open>d[k]\<close>: raises KeyError when the key is missing\<close>
  "dict_get d k = (case map_of d k of None \<Rightarrow> Inl KeyError | Some v \<Rightarrow> Inr v)"

text \<open>
  A numpy array is its shape together with its entries; the index type \<open>'i\<close> is a tuple
  of naturals with one component per axis.  Entries outside the shape are never read
  and stay 0.
\<close>

record 'i ndarray =
  shape :: 'i
  data :: "'i \<Rightarrow> real"

definition zeros :: "'i \<Rightarrow> 'i ndarray" where
  "zeros sh = \<lparr>shape = sh, data = (\<lambda>_. 0)\<rparr>"

type_synonym ix5 = "nat \<times> nat \<times> nat \<times> nat \<times> nat"


fun in_bounds5 :: "ix5 \<Rightarrow> ix5 \<Rightarrow> bool" where
  "in_bounds5 (a, b, c, d, e) (na, nb, nc, nd, ne) =
     (a < na \<and> b < nb \<and> c < nc \<and> d < nd \<and> e < ne)"


definition setitem5 :: "ix5 ndarray \<Rightarrow> ix5 \<Rightarrow> real \<Rightarrow> error + ix5 ndarray" where
  "setitem5 arr ix v =
     (if in_bounds5 ix (shape arr) then Inr (arr\<lparr>data := (data arr)(ix := v)\<rparr>)
      else Inl IndexError)"

fun foldM :: "('a \<Rightarrow> 's \<Rightarrow> error + 's) \<Rightarrow> 'a list \<Rightarrow> 's \<Rightarrow> error + 's" where
  \<comment> \<open>a \<open>for\<close> loop whose body may raise: the first exception ends the loop\<close>
  "foldM f [] s = Inr s"
| "foldM f (x # xs) s = (case f x s of Inl e \<Rightarrow> Inl e | Inr s' \<Rightarrow> foldM f xs s')"

section \<open>The polynomial term list\<close>

text \<open>
  \<open>polyterms\<close> is a list of pairs of a term's index and its exponent vector
  (\<open>list[tuple[int, Int1D]]\<close>).  Indices and exponents are naturals here: the term lists
  the optimizer builds come from \<open>enumerate(lib.powers_)\<close>, whose entries are never
  negative.
\<close>

type_synonym polyterm = "nat \<times> nat list"

definition max_list :: "nat list \<Rightarrow> nat" where
  \<comment> \<open>\<open>max(exps)\<close> on a non-empty vector (the empty one is rejected before the call)\<close>
  "max_list xs = foldr max xs 0"

definition argmax :: "nat list \<Rightarrow> nat" where
  \<comment> \<open>\<open>np.argmax\<close>: the first position of the maximum\<close>
  "argmax xs = length (takeWhile (\<lambda>x. x \<noteq> max_list xs) xs)"

definition argwhere1 :: "nat list \<Rightarrow> nat list" where
  \<comment> \<open>\<open>np.argwhere(exps == 1).flatten()\<close>: the positions holding 1, ascending\<close>
  "argwhere1 xs = filter (\<lambda>i. xs ! i = 1) [0..<length xs]"

type_synonym lib_info =
  "nat \<times> nat \<times> (nat \<times> nat) list \<times> (nat \<times> nat) list \<times> (nat set \<times> nat) list"

definition mixed_terms_of :: "polyterm list \<Rightarrow> (nat set \<times> nat) list" where
  \<comment> \<open>\<open>{frozenset(np.argwhere(exps == 1).flatten()): t_ind for t_ind, exps in polyterms
        if max(exps) == 1 and sum(exps) == 2}\<close>\<close>
  "mixed_terms_of polyterms =
     dict_of (map (\<lambda>(t_ind, exps). (set (argwhere1 exps), t_ind))
       (filter (\<lambda>(t_ind, exps). max_list exps = 1 \<and> sum_list exps = 2) polyterms))"

definition pure_terms_of :: "polyterm list \<Rightarrow> (nat \<times> nat) list" where
  \<comment> \<open>\<open>{np.argmax(exps): t_ind for t_ind, exps in polyterms if max(exps) == 2}\<close>\<close>
  "pure_terms_of polyterms =
     dict_of (map (\<lambda>(t_ind, exps). (argmax exps, t_ind))
       (filter (\<lambda>(t_ind, exps). max_list exps = 2) polyterms))"

definition linear_terms_of :: "polyterm list \<Rightarrow> (nat \<times> nat) list" where
  \<comment> \<open>\<open>{np.argmax(exps): t_ind for t_ind, exps in polyterms if sum(exps) == 1}\<close>\<close>
  "linear_terms_of polyterms =
     dict_of (map (\<lambda>(t_ind, exps). (argmax exps, t_ind))
       (filter (\<lambda>(t_ind, exps). sum_list exps = 1) polyterms))"

definition build_lib_info :: "polyterm list \<Rightarrow> error + lib_info" where
  \<comment> \<open>\<open>polyterms[0][1]\<close> raises IndexError on the empty list, which the source turns
      into a ValueError; \<open>max\<close> of an empty exponent vector raises a ValueError in the
      first comprehension\<close>
  "build_lib_info polyterms =
     (case polyterms of
        [] \<Rightarrow> Inl (ValueError ''Passed a polynomial library with no terms'')
      | (t0, e0) # _ \<Rightarrow>
          if \<exists>(t, exps) \<in> set polyterms. exps = []
          then Inl (ValueError ''max() arg is an empty sequence'')
          else Inr (length e0, length polyterms, linear_terms_of polyterms,
                    pure_terms_of polyterms, mixed_terms_of polyterms))"

text \<open>
  The term list of a degree-2 polynomial library in \<open>r\<close> variables, as
  \<open>PolynomialLibrary(2, include_bias=...)\<close> hands it over (the library itself is not
  part of the modelled file, so the builders take its term list as an argument):
  the terms are numbered in order, every exponent vector has length \<open>r\<close> and degree at
  most 2, no monomial occurs twice, and every linear, pure quadratic and mixed quadratic
  monomial is present.  The constant term may or may not be there (\<open>include_bias\<close>).
\<close>

definition lin_exps :: "nat \<Rightarrow> nat \<Rightarrow> nat list" where
  \<comment> \<open>exponents of \<open>x\<^sub>j\<close>\<close>
  "lin_exps r j = (replicate r 0)[j := 1]"

definition pure_exps :: "nat \<Rightarrow> nat \<Rightarrow> nat list" where
  \<comment> \<open>exponents of \<open>x\<^sub>j\<^sup>2\<close>\<close>
  "pure_exps r j = (replicate r 0)[j := 2]"

definition mixed_exps :: "nat \<Rightarrow> nat \<Rightarrow> nat \<Rightarrow> nat list" where
  \<comment> \<open>exponents of \<open>x\<^sub>j x\<^sub>k\<close> for \<open>j \<noteq> k\<close>\<close>
  "mixed_exps r j k = (replicate r 0)[j := 1, k := 1]"

definition wf_polyterms :: "nat \<Rightarrow> polyterm list \<Rightarrow> bool" where
  "wf_polyterms r pt \<longleftrightarrow>
     0 < r \<and> map fst pt = [0..<length pt] \<and> distinct (map snd pt) \<and>
     (\<forall>e \<in> set (map snd pt). length e = r \<and> sum_list e \<le> 2) \<and>
     (\<forall>j \<in> {..<r}. lin_exps r j \<in> set (map snd pt) \<and> pure_exps r j \<in> set (map snd pt)) \<and>
     (\<forall>j \<in> {..<r}. \<forall>k \<in> {..<r}. j < k \<longrightarrow> mixed_exps r j k \<in> set (map snd pt))"

section \<open>The quadratic projection tensor\<close>

definition assign_PQ :: "nat \<Rightarrow> nat \<Rightarrow> nat \<Rightarrow> nat \<Rightarrow> real \<Rightarrow> ix5 ndarray \<Rightarrow> error + ix5 ndarray" where
  \<comment> \<open>\<open>PQ[tgts, j, k, tgts, col] = v\<close> with \<open>tgts = range(n_targets)\<close>: the two index
      ranges are paired, so entry \<open>(i, j, k, i, col)\<close> is written for every target \<open>i\<close>\<close>
  "assign_PQ n_targets j k col v PQ =
     foldM (\<lambda>i arr. setitem5 arr (i, j, k, i, col) v) [0..<n_targets] PQ"

definition PQ_step ::
  "nat \<Rightarrow> (nat \<times> nat) list \<Rightarrow> (nat set \<times> nat) list \<Rightarrow> nat \<times> nat \<Rightarrow> ix5 ndarray
   \<Rightarrow> error + ix5 ndarray" where
  \<comment> \<open>the body of the loop over \<open>product(range(n_targets), range(n_targets))\<close>\<close>
  "PQ_step n_targets pure_terms mixed_terms jk PQ =
     (case jk of (j, k) \<Rightarrow>
        if j = k
        then (case dict_get pure_terms j of
                Inl e \<Rightarrow> Inl e
              | Inr col \<Rightarrow> assign_PQ n_targets j k col 1 PQ)
        else (case dict_get mixed_terms {j, k} of
                Inl e \<Rightarrow> Inl e
              | Inr col \<Rightarrow> assign_PQ n_targets j k col (1 / 2) PQ))"

definition build_PQ :: "polyterm list \<Rightarrow> error + ix5 ndarray" where
  "build_PQ polyterms =
     (case build_lib_info polyterms of
        Inl e \<Rightarrow> Inl e
      | Inr (n_targets, n_features, linear_terms, pure_terms, mixed_terms) \<Rightarrow>
          foldM (PQ_step n_targets pure_terms mixed_terms)
            (List.product [0..<n_targets] [0..<n_targets])
            (zeros (n_targets, n_targets, n_targets, n_targets, n_features)))"

section \<open>The constraint builder\<close>













text \<open>
  A small library used to exercise the builders: the five terms
  \<open>x\<^sub>0, x\<^sub>1, x\<^sub>0\<^sup>2, x\<^sub>0 x\<^sub>1, x\<^sub>1\<^sup>2\<close> of two variables, without the constant.
\<close>

definition lib2 :: "polyterm list" where
  "lib2 = [(0, [1, 0]), (1, [0, 1]), (2, [2, 0]), (3, [1, 1]), (4, [0, 2])]"

text \<open>
  What the loop of \<open>build_PQ\<close> has written once it has gone through the pairs \<open>jks\<close>:
  used to state the loop invariant.
\<close>

definition PQ_entry :: "nat \<Rightarrow> polyterm list \<Rightarrow> (nat \<times> nat) set \<Rightarrow> ix5 \<Rightarrow> real option" where
  "PQ_entry r pt jks ix = (case ix of (i, j, k, l, f) \<Rightarrow>
     if (j, k) \<in> jks \<and> i < r \<and> l = i \<and> f < length pt \<and>
        snd (pt ! f) = (if j = k then pure_exps r j else mixed_exps r j k)
     then Some (if j = k then 1 else 1 / 2) else None)"

section \<open>Convergence criteria, objective and the driver loop\<close>

text \<open>
  Inside one fit every array has a shape fixed by the number of targets, of library terms
  and of samples, so vectors and matrices are modelled as functions from indices to
  entries and every sum ranges over the dimensions of the fit.
\<close>

type_synonym vec = "nat \<Rightarrow> real"
type_synonym mat = "nat \<Rightarrow> nat \<Rightarrow> real"

definition transpose_mat :: "mat \<Rightarrow> mat" where
  \<comment> \<open>\<open>a.T\<close>\<close>
  "transpose_mat a = (\<lambda>i j. a j i)"

definition neg_index :: "'a list \<Rightarrow> nat \<Rightarrow> error + 'a" where
  \<comment> \<open>\<open>xs[-n]\<close> for \<open>n \<ge> 1\<close>: IndexError when the list has fewer than \<open>n\<close> entries\<close>
  "neg_index xs n = (if 0 < n \<and> n \<le> length xs then Inr (xs ! (length xs - n)) else Inl IndexError)"

datatype warning =
    ConvergenceWarning nat  \<comment> \<open>"TrappingSR3 did not converge after \<open>n\<close> iters."\<close>
  | UserWarning string

text \<open>
  What the loop reads and never writes: the dimensions of the fit (\<open>y.shape\<close> and the
  number of library terms), the configuration after the guard has filled in its defaults,
  and the quadratic projection tensor computed at the start of \<open>_reduce\<close>.
\<close>

record params =
  n_tgts :: nat
  n_features :: nat
  n_samples :: nat
  max_iter :: nat
  threshold :: real
  inequality_constraints :: bool
  tol :: real
  tol_m :: real
  eta :: real
  alpha :: real
  beta :: real
  self_method :: string
  mod_matrix :: mat
  self_PQ :: "ix5 ndarray"
  A0 :: mat
  m0 :: vec

text \<open>
  The attributes and local variables \<open>_reduce\<close> writes.  An Isabelle name cannot end in
  an underscore: \<open>history_\<close>, \<open>A_history_\<close>, \<open>m_history_\<close>, \<open>p_history_\<close>, \<open>PW_history_\<close> and
  \<open>PWeigs_history_\<close> lose theirs, \<open>self.coef_\<close> is \<open>self_coef\<close> and \<open>self.PQ_\<close> is
  \<open>self_PQ\<close>; the stability mode \<open>self.method\<close> is \<open>self_method\<close>.  \<open>'p\<close> is the type of the
  P-matrix and \<open>'e\<close> that of a sorted eigenvalue array; the driver only stores them.
  \<open>warnings\<close> lists the warnings \<open>_reduce\<close> itself has emitted.
\<close>

record ('p, 'e) fit_state =
  A_history :: "mat list"
  m_history :: "vec list"
  p_history :: "'p list"
  PW_history :: "mat list"
  PWeigs_history :: "'e list"
  history :: "mat list"
  objective_history :: "real list"
  coef_sparse :: mat
  trap_ctr :: vec
  A :: mat
  trap_prev_ctr :: vec
  self_coef :: mat
  warnings :: "warning list"

text \<open>
  The numerical routines the loop calls.  The two coefficient updates and the
  \<open>(m, A)\<close> update return \<open>None\<close> to signal infeasibility; the loop tests the coefficient
  result and the trap centre for \<open>None\<close>.  The samples \<open>x\<close>, \<open>y\<close> are fixed during a fit
  and are part of these functions.
\<close>

record ('p, 'e) solvers =
  compute_P_A :: "vec \<Rightarrow> 'p"
  update_coef_sparse_rs :: "'p \<Rightarrow> mat \<Rightarrow> mat \<Rightarrow> mat option"
  update_coef_nonsparse_rs :: "'p \<Rightarrow> mat \<Rightarrow> mat option"
  solve_m_relax_and_split :: "vec \<Rightarrow> mat \<Rightarrow> mat \<Rightarrow> vec option \<times> mat"
  tensordot_PW :: "'p \<Rightarrow> mat \<Rightarrow> mat"
  sorted_eigvals :: "mat \<Rightarrow> 'e"

definition convergence_criterion :: "params \<Rightarrow> mat list \<Rightarrow> error + real" where
  "convergence_criterion ps hist =
     (case neg_index hist 1 of
        Inl e \<Rightarrow> Inl e
      | Inr this_coef \<Rightarrow>
          (case (if 1 < length hist then neg_index hist 2 else Inr (\<lambda>_ _. 0)) of
             Inl e \<Rightarrow> Inl e
           | Inr last_coef \<Rightarrow>
               Inr (sqrt (\<Sum>i<n_tgts ps. \<Sum>j<n_features ps. (this_coef i j - last_coef i j)\<^sup>2))))"

definition m_convergence_criterion :: "params \<Rightarrow> vec list \<Rightarrow> error + real" where
  "m_convergence_criterion ps m_hist =
     (case neg_index m_hist 2 of
        Inl e \<Rightarrow> Inl e
      | Inr m_prev \<Rightarrow>
          (case neg_index m_hist 1 of
             Inl e \<Rightarrow> Inl e
           | Inr m_last \<Rightarrow> Inr (\<Sum>i<n_tgts ps. \<bar>m_prev i - m_last i\<bar>)))"

definition sindy_loss :: "params \<Rightarrow> mat \<Rightarrow> mat \<Rightarrow> mat \<Rightarrow> real" where
  \<comment> \<open>\<open>0.5 * np.sum((y - np.dot(x, coef_sparse)) ** 2)\<close>\<close>
  "sindy_loss ps x y coef =
     0.5 * (\<Sum>s<n_samples ps. \<Sum>i<n_tgts ps. (y s i - (\<Sum>f<n_features ps. x s f * coef f i))\<^sup>2)"

definition relax_loss :: "params \<Rightarrow> mat \<Rightarrow> mat \<Rightarrow> real" where
  \<comment> \<open>\<open>0.5 * np.sum((A - PW) ** 2) / self.eta\<close>\<close>
  "relax_loss ps A' PW = 0.5 * (\<Sum>i<n_tgts ps. \<Sum>j<n_tgts ps. (A' i j - PW i j)\<^sup>2) / eta ps"

definition Qijk :: "params \<Rightarrow> mat \<Rightarrow> nat \<Rightarrow> nat \<Rightarrow> nat \<Rightarrow> real" where
  \<comment> \<open>\<open>np.einsum("ya,abcde,ed", self.mod_matrix, self.PQ_, coef_sparse)\<close>\<close>
  "Qijk ps coef y b c =
     (\<Sum>a<n_tgts ps. \<Sum>d<n_tgts ps. \<Sum>e<n_features ps.
        mod_matrix ps y a * data (self_PQ ps) (a, b, c, d, e) * coef e d)"

definition Qijk_permsum :: "params \<Rightarrow> mat \<Rightarrow> nat \<Rightarrow> nat \<Rightarrow> nat \<Rightarrow> real" where
  \<comment> \<open>\<open>(Qijk + np.transpose(Qijk, [1, 2, 0]) + np.transpose(Qijk, [2, 0, 1])) ** 2\<close>\<close>
  "Qijk_permsum ps coef i j k = (Qijk ps coef i j k + Qijk ps coef k i j + Qijk ps coef j k i)\<^sup>2"

definition L1_penalty :: "params \<Rightarrow> mat \<Rightarrow> real" where
  \<comment> \<open>\<open>self.threshold * np.sum(np.abs(coef_sparse.flatten()))\<close>\<close>
  "L1_penalty ps coef = threshold ps * (\<Sum>f<n_features ps. \<Sum>i<n_tgts ps. \<bar>coef f i\<bar>)"

definition nonlin_ens_loss :: "params \<Rightarrow> mat \<Rightarrow> real" where
  \<comment> \<open>\<open>0.5 * np.sum(Qijk**2) / self.alpha\<close>\<close>
  "nonlin_ens_loss ps coef =
     0.5 * (\<Sum>i<n_tgts ps. \<Sum>j<n_tgts ps. \<Sum>k<n_tgts ps. (Qijk ps coef i j k)\<^sup>2) / alpha ps"

definition cubic_ens_loss :: "params \<Rightarrow> mat \<Rightarrow> real" where
  \<comment> \<open>\<open>0.5 * np.sum(Qijk_permsum) / self.beta\<close>\<close>
  "cubic_ens_loss ps coef =
     0.5 * (\<Sum>i<n_tgts ps. \<Sum>j<n_tgts ps. \<Sum>k<n_tgts ps. Qijk_permsum ps coef i j k) / beta ps"

definition objective :: "params \<Rightarrow> mat \<Rightarrow> mat \<Rightarrow> mat \<Rightarrow> mat \<Rightarrow> mat \<Rightarrow> real" where
  \<comment> \<open>\<open>_objective\<close> without the progress line it prints when \<open>verbose\<close> is set; the value
      of \<open>cubic_ens_loss\<close> is only printed\<close>
  "objective ps x y coef A' PW =
     (let obj = sindy_loss ps x y coef + relax_loss ps A' PW + L1_penalty ps coef
      in if self_method ps = ''local''
         then obj + (nonlin_ens_loss ps coef + nonlin_ens_loss ps coef)
         else obj)"

datatype 's flow = Continue 's | Break 's

fun for_else :: "(nat \<Rightarrow> 's \<Rightarrow> error + 's flow) \<Rightarrow> ('s \<Rightarrow> 's) \<Rightarrow> nat list \<Rightarrow> 's \<Rightarrow> error + 's" where
  \<comment> \<open>Python's \<open>for k in ks: body  else: orelse\<close>: the \<open>else\<close> branch runs when the loop
      ends without a \<open>break\<close>\<close>
  "for_else body orelse [] s = Inr (orelse s)"
| "for_else body orelse (k # ks) s =
     (case body k s of
        Inl e \<Rightarrow> Inl e
      | Inr (Break s') \<Rightarrow> Inr s'
      | Inr (Continue s') \<Rightarrow> for_else body orelse ks s')"

definition record_iteration ::
  "params \<Rightarrow> ('p, 'e) solvers \<Rightarrow> mat \<Rightarrow> mat \<Rightarrow> 'p \<Rightarrow> ('p, 'e) fit_state \<Rightarrow> ('p, 'e) fit_state" where
  \<comment> \<open>the appends after a successful \<open>(m, A)\<close> update, up to the objective\<close>
  "record_iteration ps sv x y P_A st =
     (let st1 = st\<lparr>history := history st @ [transpose_mat (coef_sparse st)]\<rparr>;
          PW = tensordot_PW sv P_A (coef_sparse st1);
          st2 = st1\<lparr>m_history := m_history st1 @ [trap_ctr st1]\<rparr>;
          st3 = st2\<lparr>A_history := A_history st2 @ [A st2]\<rparr>;
          st4 = st3\<lparr>PW_history := PW_history st3 @ [PW]\<rparr>;
          st5 = st4\<lparr>PWeigs_history := PWeigs_history st4 @ [sorted_eigvals sv PW]\<rparr>
      in st5\<lparr>objective_history :=
               objective_history st5 @ [objective ps x y (coef_sparse st5) (A st5) PW]\<rparr>)"

definition update_coef :: "params \<Rightarrow> ('p, 'e) solvers \<Rightarrow> 'p \<Rightarrow> mat \<Rightarrow> mat \<Rightarrow> mat option" where
  \<comment> \<open>the choice between the two coefficient updates at the head of an iteration\<close>
  "update_coef ps sv P_A A' coef_prev =
     (if 0 < threshold ps \<or> inequality_constraints ps
      then update_coef_sparse_rs sv P_A A' coef_prev
      else update_coef_nonsparse_rs sv P_A A')"

definition loop_body ::
  "params \<Rightarrow> ('p, 'e) solvers \<Rightarrow> mat \<Rightarrow> mat \<Rightarrow> nat \<Rightarrow> ('p, 'e) fit_state
   \<Rightarrow> error + ('p, 'e) fit_state flow" where
  "loop_body ps sv x y k st =
     (let P_A = compute_P_A sv (trap_ctr st);
          st1 = st\<lparr>p_history := p_history st @ [P_A]\<rparr>;
          coef_prev = coef_sparse st1
      in case update_coef ps sv P_A (A st1) coef_prev of
           None \<Rightarrow> Inr (Break (st1\<lparr>coef_sparse := coef_prev\<rparr>))
         | Some coef_new \<Rightarrow>
             (let st2 = st1\<lparr>coef_sparse := coef_new\<rparr> in
              case solve_m_relax_and_split sv (trap_ctr st2) (A st2) (coef_sparse st2) of
                (None, A_new) \<Rightarrow> Inr (Break (st2\<lparr>A := A_new, trap_ctr := trap_prev_ctr st2\<rparr>))
              | (Some trap_new, A_new) \<Rightarrow>
                  (let st3 = record_iteration ps sv x y P_A (st2\<lparr>trap_ctr := trap_new, A := A_new\<rparr>) in
                   case m_convergence_criterion ps (m_history st3) of
                     Inl e \<Rightarrow> Inl e
                   | Inr err_m \<Rightarrow>
                       if err_m < tol_m ps
                       then (case convergence_criterion ps (history st3) of
                               Inl e \<Rightarrow> Inl e
                             | Inr err_coef \<Rightarrow>
                                 if err_coef < tol ps then Inr (Break st3) else Inr (Continue st3))
                       else Inr (Continue st3))))"

definition initial_state :: "params \<Rightarrow> mat \<Rightarrow> ('p, 'e) fit_state" where
  \<comment> \<open>the state when the loop is entered: empty histories, then \<open>A0\<close> and \<open>m0\<close> appended\<close>
  "initial_state ps coef_init =
     \<lparr>A_history = [A0 ps], m_history = [m0 ps], p_history = [], PW_history = [],
      PWeigs_history = [], history = [], objective_history = [],
      coef_sparse = transpose_mat coef_init, trap_ctr = m0 ps, A = A0 ps,
      trap_prev_ctr = m0 ps, self_coef = coef_init, warnings = []\<rparr>"

definition reduce ::
  "params \<Rightarrow> ('p, 'e) solvers \<Rightarrow> mat \<Rightarrow> mat \<Rightarrow> mat \<Rightarrow> error + ('p, 'e) fit_state" where
  \<comment> \<open>\<open>_reduce(x, y)\<close> with \<open>self.coef_ = coef_init\<close> on entry; the projection tensors,
      which it computes first, are the field \<open>self_PQ\<close> of the parameters\<close>
  "reduce ps sv x y coef_init =
     (case for_else (loop_body ps sv x y)
             (\<lambda>st. st\<lparr>warnings := warnings st @ [ConvergenceWarning (max_iter ps)]\<rparr>)
             [0..<max_iter ps] (initial_state ps coef_init) of
        Inl e \<Rightarrow> Inl e
      | Inr st \<Rightarrow> Inr (st\<lparr>self_coef := transpose_mat (coef_sparse st)\<rparr>))"

fun state_after ::
  "(nat \<Rightarrow> 's \<Rightarrow> error + 's flow) \<Rightarrow> 's \<Rightarrow> nat \<Rightarrow> 's option" where
  \<comment> \<open>the state at the start of iteration \<open>k\<close>, if the loop gets there: every earlier
      iteration ran to its end without a \<open>break\<close> or an exception\<close>
  "state_after body s0 0 = Some s0"
| "state_after body s0 (Suc k) =
     (case state_after body s0 k of
        None \<Rightarrow> None
      | Some s \<Rightarrow> (case body k s of Inr (Continue s') \<Rightarrow> Some s' | _ \<Rightarrow> None))"

text \<open>
  Three predicates used to state the invariant of the loop: what holds of the state at
  the start of iteration \<open>k\<close>, what it means for the histories of one state to extend
  those of another, and how the history lengths are related when the loop is over.
\<close>

definition loop_inv :: "params \<Rightarrow> nat \<Rightarrow> ('p, 'e) fit_state \<Rightarrow> bool" where
  "loop_inv ps k st \<longleftrightarrow>
     length (history st) = k \<and> length (m_history st) = Suc k \<and> length (A_history st) = Suc k \<and>
     length (p_history st) = k \<and> length (PW_history st) = k \<and> length (PWeigs_history st) = k \<and>
     length (objective_history st) = k \<and> warnings st = [] \<and> trap_prev_ctr st = m0 ps \<and>
     last (m_history st) = trap_ctr st \<and> last (A_history st) = A st \<and>
     (0 < k \<longrightarrow> last (history st) = transpose_mat (coef_sparse st))"

definition hist_ext :: "('p, 'e) fit_state \<Rightarrow> ('p, 'e) fit_state \<Rightarrow> bool" where
  "hist_ext st st' \<longleftrightarrow>
     prefix (history st) (history st') \<and> prefix (m_history st) (m_history st') \<and>
     prefix (A_history st) (A_history st') \<and> prefix (p_history st) (p_history st') \<and>
     prefix (PW_history st) (PW_history st') \<and> prefix (PWeigs_history st) (PWeigs_history st') \<and>
     prefix (objective_history st) (objective_history st')"

definition final_lengths :: "nat \<Rightarrow> ('p, 'e) fit_state \<Rightarrow> bool" where
  "final_lengths n fin \<longleftrightarrow>
     length (history fin) \<le> n \<and>
     length (PW_history fin) = length (history fin) \<and>
     length (PWeigs_history fin) = length (history fin) \<and>
     length (objective_history fin) = length (history fin) \<and>
     length (m_history fin) = length (history fin) + 1 \<and>
     length (A_history fin) = length (history fin) + 1 \<and>
     (length (p_history fin) = length (history fin) \<or>
      length (p_history fin) = length (history fin) + 1)"

text \<open>
  A one-variable fit used as a concrete run of the driver: the library has the two terms
  \<open>x\<close> and \<open>x\<^sup>2\<close>, the quadratic projection tensor is the one \<open>_build_PQ\<close> gives for it,
  both tolerances are 1, and the sparsity threshold is 0, so the closed-form coefficient
  update is the one called.
\<close>

definition ex_PQ :: "ix5 ndarray" where
  "ex_PQ = \<lparr>shape = (1, 1, 1, 1, 2), data = (\<lambda>ix. if ix = (0, 0, 0, 0, 1) then 1 else 0)\<rparr>"

definition ex_params :: "nat \<Rightarrow> string \<Rightarrow> params" where
  "ex_params n meth =
     \<lparr>n_tgts = 1, n_features = 2, n_samples = 1, max_iter = n, threshold = 0,
      inequality_constraints = False, tol = 1, tol_m = 1, eta = 1, alpha = 1, beta = 1,
      self_method = meth, mod_matrix = (\<lambda>i j. if i = j then 1 else 0), self_PQ = ex_PQ,
      A0 = (\<lambda>i j. if i = j then - 1 else 0), m0 = (\<lambda>i. 0)\<rparr>"

definition const_mat :: "real \<Rightarrow> mat" where
  "const_mat v = (\<lambda>i j. v)"

definition const_vec :: "real \<Rightarrow> vec" where
  "const_vec v = (\<lambda>i. v)"

text \<open>
  Solvers whose coefficient update always returns the matrix with every entry \<open>v\<close>.
  With \<open>ex_solvers_steady\<close> the \<open>(m, A)\<close> update leaves both unchanged; with
  \<open>ex_solvers_failing\<close> it moves the centre from 0 to 3 and reports infeasibility when
  called again.  With \<open>ex_solvers_infeasible\<close> the coefficient update itself reports
  infeasibility.
\<close>

definition ex_solvers_steady :: "real \<Rightarrow> (unit, unit) solvers" where
  "ex_solvers_steady v =
     \<lparr>compute_P_A = (\<lambda>m. ()),
      update_coef_sparse_rs = (\<lambda>P A' coef_prev. None),
      update_coef_nonsparse_rs = (\<lambda>P A'. Some (const_mat v)),
      solve_m_relax_and_split = (\<lambda>m A' coef. (Some m, A')),
      tensordot_PW = (\<lambda>P coef. const_mat 0),
      sorted_eigvals = (\<lambda>PW. ())\<rparr>"

definition ex_solvers_failing :: "real \<Rightarrow> (unit, unit) solvers" where
  "ex_solvers_failing v =
     \<lparr>compute_P_A = (\<lambda>m. ()),
      update_coef_sparse_rs = (\<lambda>P A' coef_prev. None),
      update_coef_nonsparse_rs = (\<lambda>P A'. Some (const_mat v)),
      solve_m_relax_and_split = (\<lambda>m A' coef. if m 0 = 0 then (Some (const_vec 3), A') else (None, A')),
      tensordot_PW = (\<lambda>P coef. const_mat 0),
      sorted_eigvals = (\<lambda>PW. ())\<rparr>"


text \<open>
  Claim C4 as it is worded: the convergence exit is taken exactly when the last two
  recorded coefficient iterates differ by less than \<open>tol\<close> in the L2 norm and the last two
  recorded trap centres differ by less than \<open>tol_m\<close> in the L1 norm.  Both differences
  need two recorded entries.
\<close>

definition claimed_convergence :: "params \<Rightarrow> ('p, 'e) fit_state \<Rightarrow> bool" where
  "claimed_convergence ps st \<longleftrightarrow>
     2 \<le> length (history st) \<and> 2 \<le> length (m_history st) \<and>
     sqrt (\<Sum>i<n_tgts ps. \<Sum>j<n_features ps.
        ((history st ! (length (history st) - 1)) i j
          - (history st ! (length (history st) - 2)) i j)\<^sup>2)
       < tol ps \<and>
     (\<Sum>i<n_tgts ps. \<bar>(m_history st ! (length (m_history st) - 2)) i
                     - (m_history st ! (length (m_history st) - 1)) i\<bar>) < tol_m ps"

text \<open>Observers for stating what a concrete run returned.\<close>

definition result_of :: "error + 'a \<Rightarrow> 'a option" where
  "result_of r = (case r of Inl e \<Rightarrow> None | Inr v \<Rightarrow> Some v)"


text \<open>
  The objective as the class documentation and claim C8 give it: in local mode the
  nonlinear-energy penalty and the cubic-symmetry penalty are each added once.
\<close>

definition documented_objective :: "params \<Rightarrow> mat \<Rightarrow> mat \<Rightarrow> mat \<Rightarrow> mat \<Rightarrow> mat \<Rightarrow> real" where
  "documented_objective ps x y coef A' PW =
     sindy_loss ps x y coef + relax_loss ps A' PW + L1_penalty ps coef +
     (if self_method ps = ''local'' then nonlin_ens_loss ps coef + cubic_ens_loss ps coef else 0)"

definition ex_coef :: mat where
  \<comment> \<open>the coefficients of \<open>x' = x\<^sup>2\<close> in the library \<open>x, x\<^sup>2\<close>\<close>
  "ex_coef = (\<lambda>f i. if f = 1 \<and> i = 0 then 1 else 0)"

section \<open>Construction and the parameter guard\<close>

text \<open>
  The attributes \<open>__post_init_guard\<close> reads and fills in, as \<open>__init__\<close> and the base-class
  constructor have stored them (or \<open>set_params\<close> has changed them).  An argument that may
  be \<open>None\<close> is an \<open>option\<close>.  The names carry the prefix \<open>self_\<close>.
\<close>

record attrs =
  self_thresholder :: string
  self_eta :: "real option"
  self_alpha_m :: "real option"
  self_alpha_A :: "real option"
  self_alpha :: "real option"
  self_beta :: "real option"
  self_gamma :: real
  self_tol :: real
  self_tol_m :: real
  self_eps_solver :: real
  self_inequality_constraints :: bool
  self_threshold :: real
  self_A0 :: "mat option"
  self_m0 :: "vec option"
  self_n_tgts :: nat

definition lower_char :: "char \<Rightarrow> char" where
  "lower_char c =
     (case map_of (zip ''ABCDEFGHIJKLMNOPQRSTUVWXYZ'' ''abcdefghijklmnopqrstuvwxyz'') c of
        None \<Rightarrow> c | Some d \<Rightarrow> d)"

definition lower :: "string \<Rightarrow> string" where
  \<comment> \<open>\<open>str.lower()\<close> on the ASCII letters\<close>
  "lower s = map lower_char s"

definition eta_defaults :: "attrs \<Rightarrow> attrs \<times> warning list" where
  \<comment> \<open>the \<open>if self.eta is None: ... else: ...\<close> block; the numerals are \<open>1e20\<close> and \<open>1e18\<close>\<close>
  "eta_defaults a =
     (case self_eta a of
        None \<Rightarrow> (a\<lparr>self_eta := Some 100000000000000000000,
                     self_alpha_m := Some 1000000000000000000,
                     self_alpha_A := Some 100000000000000000000\<rparr>,
                  [UserWarning ''eta was not set, so defaulting to eta = 1e20''])
      | Some e \<Rightarrow>
          (let a1 = (if self_alpha_m a = None then a\<lparr>self_alpha_m := Some (e * (1 / 100))\<rparr> else a);
               a2 = (if self_alpha_A a1 = None then a1\<lparr>self_alpha_A := Some e\<rparr> else a1)
           in (a2, [])))"

definition alpha_beta_defaults :: "attrs \<Rightarrow> attrs \<times> warning list" where
  "alpha_beta_defaults a =
     (let (a1, w1) = (if self_alpha a = None
                      then (a\<lparr>self_alpha := Some 100000000000000000000\<rparr>,
                            [UserWarning ''alpha was not set, so defaulting to alpha = 1e20''])
                      else (a, []));
          (a2, w2) = (if self_beta a1 = None
                      then (a1\<lparr>self_beta := Some 100000000000000000000\<rparr>,
                            [UserWarning ''beta was not set, so defaulting to beta = 1e20''])
                      else (a1, []))
      in (a2, w1 @ w2))"

definition range_checks :: "real \<Rightarrow> real \<Rightarrow> real \<Rightarrow> attrs \<Rightarrow> error option" where
  \<comment> \<open>the chain of tests from the step sizes on: the first one that fails raises\<close>
  "range_checks e am aA a =
     (if am < 0 \<or> e < am then Some (ValueError ''0 <= alpha_m <= eta'')
      else if aA < 0 \<or> e < aA then Some (ValueError ''0 <= alpha_A <= eta'')
      else if 0 \<le> self_gamma a then Some (ValueError ''gamma must be negative'')
      else if self_tol a \<le> 0 \<or> self_tol_m a \<le> 0 \<or> self_eps_solver a \<le> 0
        then Some (ValueError ''tol and tol_m must be positive'')
      else if self_inequality_constraints a \<and> self_threshold a = 0
        then Some (ValueError ''Inequality constraints requires threshold!=0'')
      else None)"

definition default_A0_m0 :: "(nat \<Rightarrow> nat \<Rightarrow> vec) \<Rightarrow> attrs \<Rightarrow> attrs" where
  \<comment> \<open>\<open>rand s n\<close> stands for the vector \<open>np.random.rand(n)\<close> returns right after
      \<open>np.random.seed(s)\<close>; \<open>A0\<close> defaults to \<open>np.diag(gamma * np.ones(n))\<close> and \<open>m0\<close> to
      \<open>(np.random.rand(n) - np.ones(n)) * 2\<close> after \<open>np.random.seed(1)\<close>\<close>
  "default_A0_m0 rand a =
     (let a1 = (if self_A0 a = None
                then a\<lparr>self_A0 := Some (\<lambda>i j. if i = j then self_gamma a * 1 else 0)\<rparr>
                else a)
      in if self_m0 a1 = None
         then a1\<lparr>self_m0 := Some (\<lambda>i. (rand 1 (self_n_tgts a1) i - 1) * 2)\<rparr>
         else a1)"

definition post_init_guard :: "(nat \<Rightarrow> nat \<Rightarrow> vec) \<Rightarrow> attrs \<Rightarrow> error + attrs \<times> warning list" where
  \<comment> \<open>After the first default block the three of \<open>eta\<close>, \<open>alpha_m\<close>, \<open>alpha_A\<close> are set, so
      the comparisons read numbers; were one still \<open>None\<close>, the comparison would raise a
      TypeError, which is the last branch and is never taken.\<close>
  "post_init_guard rand a =
     (if lower (self_thresholder a) \<notin> set [''l1'', ''l2'', ''weighted_l1'', ''weighted_l2'']
      then Inl (ValueError ''Regularizer must be (weighted) L1 or L2'')
      else
        let a1 = fst (eta_defaults a); w1 = snd (eta_defaults a) in
        case (self_eta a1, self_alpha_m a1, self_alpha_A a1) of
          (Some e, Some am, Some aA) \<Rightarrow>
            if e \<le> 0 then Inl (ValueError ''eta must be positive'')
            else
              let a2 = fst (alpha_beta_defaults a1); w2 = snd (alpha_beta_defaults a1) in
              (case range_checks e am aA a2 of
                 Some err \<Rightarrow> Inl err
               | None \<Rightarrow> Inr (default_A0_m0 rand a2, w1 @ w2))
        | _ \<Rightarrow> Inl (TypeError ''comparison with None''))"



text \<open>
  The invalid configurations as claim C7 lists them, read on the values the guard
  compares: a step size left at \<open>None\<close> gets its default, and with \<open>eta\<close> left at \<open>None\<close>
  all three of \<open>eta\<close>, \<open>alpha_m\<close>, \<open>alpha_A\<close> get theirs.
\<close>

definition config_invalid :: "attrs \<Rightarrow> bool" where
  "config_invalid a \<longleftrightarrow>
     lower (self_thresholder a) \<notin> {''l1'', ''l2'', ''weighted_l1'', ''weighted_l2''} \<or>
     (case self_eta a of
        None \<Rightarrow> False
      | Some e \<Rightarrow>
          e \<le> 0 \<or>
          (case self_alpha_m a of None \<Rightarrow> False | Some am \<Rightarrow> am < 0 \<or> e < am) \<or>
          (case self_alpha_A a of None \<Rightarrow> False | Some aA \<Rightarrow> aA < 0 \<or> e < aA)) \<or>
     0 \<le> self_gamma a \<or>
     self_tol a \<le> 0 \<or> self_tol_m a \<le> 0 \<or> self_eps_solver a \<le> 0 \<or>
     (self_inequality_constraints a \<and> self_threshold a = 0)"

definition ex_attrs :: attrs where
  \<comment> \<open>the defaults of \<open>__init__\<close> with \<open>eta = 1\<close> and a threshold of 0.1\<close>
  "ex_attrs =
     \<lparr>self_thresholder = ''l1'', self_eta = Some 1, self_alpha_m = None, self_alpha_A = None,
      self_alpha = None, self_beta = None, self_gamma = - (1 / 10), self_tol = 1 / 100000,
      self_tol_m = 1 / 100000, self_eps_solver = 1 / 10000000,
      self_inequality_constraints = False, self_threshold = 1 / 10,
      self_A0 = None, self_m0 = None, self_n_tgts = 3\<rparr>"

definition ex_rand :: "nat \<Rightarrow> nat \<Rightarrow> vec" where
  "ex_rand s n = (\<lambda>i. 1 / 2)"

section \<open>The eigenvalue clip of the certificate matrix\<close>

text \<open>
  \<open>np.linalg.eigh\<close> and \<open>np.linalg.inv\<close> are library routines: \<open>_update_A\<close> takes them as
  the arguments \<open>eigh\<close> and \<open>np_inv\<close>.  \<open>eigh r M\<close> is the pair of the eigenvalue vector and the
  matrix whose columns are the eigenvectors; \<open>np_inv r M\<close> is \<open>None\<close> when numpy raises
  LinAlgError.  \<open>r\<close> is \<open>A_old.shape[0]\<close>.  Arithmetic is exact.
\<close>

definition matmul :: "nat \<Rightarrow> mat \<Rightarrow> mat \<Rightarrow> mat" where
  \<comment> \<open>\<open>X @ Y\<close> for \<open>r \<times> r\<close> matrices\<close>
  "matmul r X Y = (\<lambda>i j. \<Sum>k<r. X i k * Y k j)"

definition np_diag :: "vec \<Rightarrow> mat" where
  "np_diag v = (\<lambda>i j. if i = j then v i else 0)"

definition clip_diag :: "real \<Rightarrow> nat \<Rightarrow> vec \<Rightarrow> mat" where
  \<comment> \<open>\<open>A = np.diag(eigvals)\<close> followed by the loop that overwrites \<open>A[i, i]\<close> with \<open>gamma\<close>
      where \<open>eigvals[i] > gamma\<close>\<close>
  "clip_diag gamma r eigvals =
     fold (\<lambda>i A'. if gamma < eigvals i then A'(i := (A' i)(i := gamma)) else A') [0..<r]
       (np_diag eigvals)"

definition update_A ::
  "(nat \<Rightarrow> mat \<Rightarrow> vec \<times> mat) \<Rightarrow> (nat \<Rightarrow> mat \<Rightarrow> mat option) \<Rightarrow> real \<Rightarrow> nat \<Rightarrow> mat \<Rightarrow> mat
   \<Rightarrow> error + mat" where
  "update_A eigh np_inv gamma r A_old PW =
     (case eigh r A_old of (eigvals, eigvecs) \<Rightarrow>
      case eigh r PW of (eigPW, eigvecsPW) \<Rightarrow>
        let A' = clip_diag gamma r eigvals in
        case np_inv r eigvecsPW of
          None \<Rightarrow> Inl LinAlgError
        | Some inv_eigvecsPW \<Rightarrow> Inr (matmul r (matmul r eigvecsPW A') inv_eigvecsPW))"

definition is_eigenvalue :: "nat \<Rightarrow> mat \<Rightarrow> real \<Rightarrow> bool" where
  \<comment> \<open>\<open>\<mu>\<close> is an eigenvalue of the \<open>r \<times> r\<close> matrix \<open>M\<close>: some nonzero vector is mapped to
      \<open>\<mu>\<close> times itself\<close>
  "is_eigenvalue r M \<mu> \<longleftrightarrow>
     (\<exists>x. (\<exists>i<r. x i \<noteq> 0) \<and> (\<forall>i<r. (\<Sum>j<r. M i j * x j) = \<mu> * x i))"

definition is_inverse :: "nat \<Rightarrow> mat \<Rightarrow> mat \<Rightarrow> bool" where
  "is_inverse r V Vi \<longleftrightarrow>
     (\<forall>i<r. \<forall>j<r. (\<Sum>k<r. Vi i k * V k j) = (if i = j then 1 else 0)) \<and>
     (\<forall>i<r. \<forall>j<r. (\<Sum>k<r. V i k * Vi k j) = (if i = j then 1 else 0))"

text \<open>
  A stand-in for the two routines at one input, the diagonal matrix with the entries 1
  and \<open>- 2\<close>: these are its eigenvalues, the identity is its eigenvector matrix, and the
  inverse of the identity is the identity.
\<close>

definition eye :: mat where
  "eye = (\<lambda>i j. if i = j then 1 else 0)"

definition ex_eigvals :: vec where
  "ex_eigvals = (\<lambda>i. if i = 0 then 1 else - 2)"

definition ex_eigh :: "nat \<Rightarrow> mat \<Rightarrow> vec \<times> mat" where
  "ex_eigh r M = (ex_eigvals, eye)"

definition ex_inv :: "nat \<Rightarrow> mat \<Rightarrow> mat option" where
  "ex_inv r M = Some eye"

section \<open>Dictionaries built by a comprehension\<close>

lemma map_of_dict_set: "map_of (dict_set k v d) = (map_of d)(k \<mapsto> v)"
  by (induction d) (auto simp: fun_eq_iff)

lemma map_of_foldl_dict_set:
  "map_of (foldl (\<lambda>d (k, v). dict_set k v d) d kvs) = map_of d ++ map_of (rev kvs)"
  by (induction kvs arbitrary: d) (auto simp: map_of_dict_set fun_eq_iff map_add_def split: option.splits)

lemma map_of_dict_of: "map_of (dict_of kvs) = map_of (rev kvs)"
  by (simp add: dict_of_def map_of_foldl_dict_set)

lemma map_of_dict_of_distinct:
  "distinct (map fst kvs) \<Longrightarrow> map_of (dict_of kvs) = map_of kvs"
proof -
  assume d: "distinct (map fst kvs)"
  have "map_of (rev kvs) k = map_of kvs k" for k
  proof (cases "map_of kvs k")
    case None
    then have "map_of (rev kvs) k = None" by (simp add: map_of_eq_None_iff)
    then show ?thesis using None by simp
  next
    case (Some v)
    then have "(k, v) \<in> set (rev kvs)" by (auto dest: map_of_SomeD)
    moreover have "distinct (map fst (rev kvs))" using d by (simp add: rev_map [symmetric])
    ultimately show ?thesis using Some by simp
  qed
  then show ?thesis by (simp add: map_of_dict_of fun_eq_iff)
qed

lemma keys_dict_set: "fst ` set (dict_set k v d) = insert k (fst ` set d)"
  by (induction k v d rule: dict_set.induct) (simp_all add: insert_commute)

lemma distinct_dict_set: "distinct (map fst d) \<Longrightarrow> distinct (map fst (dict_set k v d))"
  by (induction k v d rule: dict_set.induct) (auto simp: keys_dict_set)

lemma keys_foldl_dict_set:
  "fst ` set (foldl (\<lambda>d (k, v). dict_set k v d) d kvs) = fst ` set d \<union> fst ` set kvs"
proof (induction kvs arbitrary: d)
  case Nil
  then show ?case by simp
next
  case (Cons a kvs)
  obtain k v where a: "a = (k, v)" by (cases a)
  show ?case by (simp add: a Cons.IH keys_dict_set)
qed

lemma distinct_foldl_dict_set:
  "distinct (map fst d) \<Longrightarrow> distinct (map fst (foldl (\<lambda>d (k, v). dict_set k v d) d kvs))"
proof (induction kvs arbitrary: d)
  case Nil
  then show ?case by simp
next
  case (Cons a kvs)
  obtain k v where a: "a = (k, v)" by (cases a)
  show ?case using Cons.prems by (simp add: a Cons.IH distinct_dict_set)
qed

lemma keys_dict_of: "fst ` set (dict_of kvs) = fst ` set kvs"
  by (simp add: dict_of_def keys_foldl_dict_set)

lemma distinct_dict_of: "distinct (map fst (dict_of kvs))"
  by (simp add: dict_of_def distinct_foldl_dict_set)

lemma length_dict_of: "length (dict_of kvs) = card (set (map fst kvs))"
  using distinct_card [OF distinct_dict_of, of kvs] keys_dict_of [of kvs] by simp

lemma dict_set_fresh: "k \<notin> set (map fst d) \<Longrightarrow> dict_set k v d = d @ [(k, v)]"
  by (induction d) auto

lemma foldl_dict_set_distinct:
  "distinct (map fst d @ map fst kvs) \<Longrightarrow> foldl (\<lambda>d (k, v). dict_set k v d) d kvs = d @ kvs"
  by (induction kvs arbitrary: d) (auto simp: dict_set_fresh)

lemma dict_of_distinct: "distinct (map fst kvs) \<Longrightarrow> dict_of kvs = kvs"
  using foldl_dict_set_distinct [of "[]" kvs] by (simp add: dict_of_def)

section \<open>Exponent vectors of a well-formed library\<close>

lemma le_max_list: "x \<in> set xs \<Longrightarrow> x \<le> max_list xs"
  by (induction xs) (auto simp: max_list_def)

lemma max_list_pos_in: "0 < max_list xs \<Longrightarrow> max_list xs \<in> set xs"
  by (induction xs) (auto simp: max_list_def max_def split: if_splits)

lemma sum_list_two_nth:
  "i < length (e::nat list) \<Longrightarrow> j < length e \<Longrightarrow> i \<noteq> j \<Longrightarrow> e ! i + e ! j \<le> sum_list e"
proof (induction e arbitrary: i j)
  case Nil
  then show ?case by simp
next
  case (Cons x xs)
  have mem: "n < length xs \<Longrightarrow> xs ! n \<le> sum_list xs" for n
    by (simp add: member_le_sum_list)
  show ?case
  proof (cases i)
    case 0
    then obtain j' where "j = Suc j'" using Cons.prems by (cases j) auto
    then show ?thesis using 0 Cons.prems mem [of j'] by simp
  next
    case (Suc i')
    show ?thesis
    proof (cases j)
      case 0
      then show ?thesis using Suc Cons.prems mem [of i'] by simp
    next
      case (Suc j')
      then show ?thesis using \<open>i = Suc i'\<close> Cons.prems Cons.IH [of i' j'] by simp
    qed
  qed
qed

lemma argmax_unique:
  "j < length e \<Longrightarrow> e ! j = max_list e \<Longrightarrow> (\<forall>i < j. e ! i \<noteq> max_list e) \<Longrightarrow> argmax e = j"
proof -
  assume j: "j < length e" and m: "e ! j = max_list e" and f: "\<forall>i < j. e ! i \<noteq> max_list e"
  have "takeWhile (\<lambda>x. x \<noteq> max_list e) e = take j e"
    by (rule takeWhile_eq_take_P_nth) (use j m f in auto)
  then show ?thesis using j by (simp add: argmax_def)
qed

lemma pure_exps_char:
  assumes "sum_list e \<le> 2" "max_list e = 2"
  shows "argmax e < length e \<and> e = pure_exps (length e) (argmax e)"
proof -
  have "2 \<in> set e" using max_list_pos_in [of e] assms by simp
  then obtain j where j: "j < length e" "e ! j = 2" by (auto simp: in_set_conv_nth)
  have others: "e ! i = 0" if "i < length e" "i \<noteq> j" for i
    using sum_list_two_nth [OF that(1) j(1) that(2)] j assms by simp
  have "argmax e = j"
    by (rule argmax_unique) (use j assms others in auto)
  moreover have "e = pure_exps (length e) j"
    by (rule nth_equalityI) (use j others in \<open>auto simp: pure_exps_def nth_list_update\<close>)
  ultimately show ?thesis using j by simp
qed

lemma max_list_pure_exps: "j < r \<Longrightarrow> max_list (pure_exps r j) = 2"
proof -
  assume j: "j < r"
  have "2 \<in> set (pure_exps r j)" using j by (auto simp: pure_exps_def in_set_conv_nth nth_list_update intro!: exI [of _ j])
  then have "2 \<le> max_list (pure_exps r j)" by (rule le_max_list)
  moreover have "max_list (pure_exps r j) \<in> set (pure_exps r j)"
    using max_list_pos_in [of "pure_exps r j"] calculation by simp
  then have "max_list (pure_exps r j) \<le> 2"
    by (auto simp: pure_exps_def dest!: set_update_subset_insert [THEN subsetD])
  ultimately show ?thesis by simp
qed

lemma argmax_pure_exps: "j < r \<Longrightarrow> argmax (pure_exps r j) = j"
proof -
  assume j: "j < r"
  have m: "max_list (pure_exps r j) = 2" using j by (rule max_list_pure_exps)
  show ?thesis
    by (rule argmax_unique) (use j m in \<open>auto simp: pure_exps_def\<close>)
qed

lemma count_ones:
  assumes "\<forall>x \<in> set e. x \<le> (1::nat)"
  shows "sum_list e = card {i. i < length e \<and> e ! i = 1}"
proof -
  have "sum_list e = (\<Sum>i = 0..<length e. e ! i)" by (rule sum_list_sum_nth)
  also have "\<dots> = (\<Sum>i = 0..<length e. if e ! i = 1 then 1 else 0)"
  proof (rule sum.cong)
    fix i assume "i \<in> {0..<length e}"
    then have "e ! i \<le> 1" using assms by auto
    then show "e ! i = (if e ! i = 1 then 1 else 0)" by auto
  qed simp
  also have "\<dots> = (\<Sum>i \<in> {i \<in> {0..<length e}. e ! i = 1}. 1)"
    by (rule sum.inter_filter [symmetric]) simp
  also have "\<dots> = card {i \<in> {0..<length e}. e ! i = 1}" by simp
  also have "{i \<in> {0..<length e}. e ! i = 1} = {i. i < length e \<and> e ! i = 1}" by auto
  finally show ?thesis .
qed

lemma set_argwhere1: "set (argwhere1 e) = {i. i < length e \<and> e ! i = 1}"
  by (auto simp: argwhere1_def)

lemma mixed_exps_char:
  assumes "max_list e = 1" "sum_list e = 2"
  shows "\<exists>j k. j < k \<and> k < length e \<and> e = mixed_exps (length e) j k \<and> set (argwhere1 e) = {j, k}"
proof -
  let ?S = "{i. i < length e \<and> e ! i = 1}"
  have le1: "\<forall>x \<in> set e. x \<le> 1" using le_max_list [of _ e] assms by auto
  then have "card ?S = 2" using count_ones [of e] assms by simp
  then obtain a b where ab: "?S = {a, b}" "a \<noteq> b" by (auto simp: card_2_iff)
  define j where "j = min a b"
  define k where "k = max a b"
  have S: "?S = {j, k}" and jk: "j < k" using ab by (auto simp: j_def k_def min_def max_def)
  have kl: "k < length e" and jl: "j < length e" using S by auto
  have ones: "e ! i = (if i = j \<or> i = k then 1 else 0)" if "i < length e" for i
  proof -
    have "e ! i \<le> 1" using le1 that by auto
    moreover have "e ! i = 1 \<longleftrightarrow> i = j \<or> i = k" using S that by auto
    ultimately show ?thesis by auto
  qed
  have "e = mixed_exps (length e) j k"
    using jl kl by (intro nth_equalityI) (auto simp: mixed_exps_def nth_list_update ones)
  then show ?thesis using jk kl S by (auto simp: set_argwhere1)
qed

lemma mixed_exps_props:
  assumes "j < r" "k < r" "j \<noteq> k"
  shows "max_list (mixed_exps r j k) = 1" "sum_list (mixed_exps r j k) = 2"
    "set (argwhere1 (mixed_exps r j k)) = {j, k}" "length (mixed_exps r j k) = r"
proof -
  let ?e = "mixed_exps r j k"
  have nth: "?e ! i = (if i = j \<or> i = k then 1 else 0)" if "i < r" for i
    using that assms by (auto simp: mixed_exps_def nth_list_update)
  show len: "length ?e = r" by (simp add: mixed_exps_def)
  show S: "set (argwhere1 ?e) = {j, k}" using assms by (auto simp: set_argwhere1 len nth split: if_splits)
  have le1: "\<forall>x \<in> set ?e. x \<le> 1" by (auto simp: in_set_conv_nth len nth)
  have "sum_list ?e = card {i. i < length ?e \<and> ?e ! i = 1}" by (rule count_ones [OF le1])
  also have "{i. i < length ?e \<and> ?e ! i = 1} = {j, k}" using S by (simp add: set_argwhere1)
  finally show "sum_list ?e = 2" using assms by simp
  have "1 \<in> set ?e" using assms nth [of j] by (auto simp: in_set_conv_nth len intro!: exI [of _ j])
  then have "1 \<le> max_list ?e" by (rule le_max_list)
  moreover have "max_list ?e \<in> set ?e" using max_list_pos_in [of ?e] calculation by simp
  then have "max_list ?e \<le> 1" using le1 by auto
  ultimately show "max_list ?e = 1" by simp
qed

lemma mixed_exps_commute: "mixed_exps r j k = mixed_exps r k j"
  by (cases "j = k") (auto simp: mixed_exps_def list_update_swap)

lemma wf_nth:
  assumes "map fst pt = [0..<length pt]" "(t, e) \<in> set pt"
  shows "t < length pt \<and> pt ! t = (t, e)"
proof -
  obtain i where i: "i < length pt" "pt ! i = (t, e)" using assms(2) by (auto simp: in_set_conv_nth)
  have "map fst pt ! i = i" using i assms(1) by simp
  then have "t = i" using i by simp
  then show ?thesis using i by simp
qed

lemma wf_inj_snd: "wf_polyterms r pt \<Longrightarrow> inj_on snd (set pt)"
  by (simp add: wf_polyterms_def distinct_map)

lemma wf_exps: "wf_polyterms r pt \<Longrightarrow> (t, e) \<in> set pt \<Longrightarrow> length e = r \<and> sum_list e \<le> 2"
  by (force simp: wf_polyterms_def)

lemma wf_distinct: "wf_polyterms r pt \<Longrightarrow> distinct pt"
  by (simp add: wf_polyterms_def distinct_map)

lemma pure_keys_distinct:
  assumes "wf_polyterms r pt"
  shows "distinct (map fst (map (\<lambda>(t_ind, exps). (argmax exps, t_ind))
       (filter (\<lambda>(t_ind, exps). max_list exps = 2) pt)))"
proof -
  let ?xs = "filter (\<lambda>(t_ind, exps). max_list exps = 2) pt"
  have eq: "map fst (map (\<lambda>(t_ind, exps). (argmax exps, t_ind)) ?xs) = map (\<lambda>x. argmax (snd x)) ?xs"
    by (simp add: case_prod_beta o_def)
  have "inj_on (\<lambda>x. argmax (snd x)) (set ?xs)"
  proof (rule inj_onI)
    fix x y assume x: "x \<in> set ?xs" and y: "y \<in> set ?xs" and a: "argmax (snd x) = argmax (snd y)"
    have "snd x = pure_exps r (argmax (snd x))"
      using x wf_exps [OF assms, of "fst x" "snd x"] pure_exps_char [of "snd x"] by (auto simp: case_prod_beta)
    moreover have "snd y = pure_exps r (argmax (snd y))"
      using y wf_exps [OF assms, of "fst y" "snd y"] pure_exps_char [of "snd y"] by (auto simp: case_prod_beta)
    ultimately have "snd x = snd y" using a by simp
    then show "x = y" using wf_inj_snd [OF assms] x y by (auto dest: inj_onD)
  qed
  moreover have "distinct ?xs" using wf_distinct [OF assms] by simp
  ultimately show ?thesis unfolding eq by (simp add: distinct_map)
qed

lemma pure_terms_of_eq:
  "wf_polyterms r pt \<Longrightarrow> pure_terms_of pt = map (\<lambda>(t_ind, exps). (argmax exps, t_ind))
       (filter (\<lambda>(t_ind, exps). max_list exps = 2) pt)"
  unfolding pure_terms_of_def by (rule dict_of_distinct) (rule pure_keys_distinct)

lemma pure_terms_lookup:
  assumes "wf_polyterms r pt" "j < r"
  shows "\<exists>f. dict_get (pure_terms_of pt) j = Inr f \<and> f < length pt \<and> pt ! f = (f, pure_exps r j)"
proof -
  have "pure_exps r j \<in> set (map snd pt)" using assms by (simp add: wf_polyterms_def)
  then obtain f where f: "(f, pure_exps r j) \<in> set pt" by auto
  have nth: "f < length pt \<and> pt ! f = (f, pure_exps r j)"
    using wf_nth [OF _ f] assms by (simp add: wf_polyterms_def)
  have "(j, f) \<in> set (pure_terms_of pt)"
    using f assms by (force simp: pure_terms_of_eq [OF assms(1)] max_list_pure_exps argmax_pure_exps)
  moreover have "distinct (map fst (pure_terms_of pt))"
    unfolding pure_terms_of_def by (rule distinct_dict_of)
  ultimately have "map_of (pure_terms_of pt) j = Some f" by simp
  then show ?thesis using nth by (simp add: dict_get_def)
qed

lemma mixed_keys_distinct:
  assumes "wf_polyterms r pt"
  shows "distinct (map fst (map (\<lambda>(t_ind, exps). (set (argwhere1 exps), t_ind))
       (filter (\<lambda>(t_ind, exps). max_list exps = 1 \<and> sum_list exps = 2) pt)))"
proof -
  let ?xs = "filter (\<lambda>(t_ind, exps). max_list exps = 1 \<and> sum_list exps = 2) pt"
  have eq: "map fst (map (\<lambda>(t_ind, exps). (set (argwhere1 exps), t_ind)) ?xs)
      = map (\<lambda>x. set (argwhere1 (snd x))) ?xs"
    by (simp add: case_prod_beta o_def)
  have char: "\<exists>j k. j < k \<and> k < r \<and> snd x = mixed_exps r j k \<and> set (argwhere1 (snd x)) = {j, k}"
    if "x \<in> set ?xs" for x
    using that wf_exps [OF assms, of "fst x" "snd x"] mixed_exps_char [of "snd x"]
    by (auto simp: case_prod_beta)
  have "inj_on (\<lambda>x. set (argwhere1 (snd x))) (set ?xs)"
  proof (rule inj_onI)
    fix x y assume x: "x \<in> set ?xs" and y: "y \<in> set ?xs"
      and a: "set (argwhere1 (snd x)) = set (argwhere1 (snd y))"
    obtain j k where 1: "j < k" "snd x = mixed_exps r j k" "set (argwhere1 (snd x)) = {j, k}"
      using char [OF x] by blast
    obtain j' k' where 2: "j' < k'" "snd y = mixed_exps r j' k'" "set (argwhere1 (snd y)) = {j', k'}"
      using char [OF y] by blast
    have "{j, k} = {j', k'}" using a 1 2 by simp
    then have "j = j' \<and> k = k'" using 1(1) 2(1) by (auto simp: doubleton_eq_iff)
    then have "snd x = snd y" using 1 2 by simp
    then show "x = y" using wf_inj_snd [OF assms] x y by (auto dest: inj_onD)
  qed
  moreover have "distinct ?xs" using wf_distinct [OF assms] by simp
  ultimately show ?thesis unfolding eq by (simp add: distinct_map)
qed

lemma mixed_terms_of_eq:
  "wf_polyterms r pt \<Longrightarrow> mixed_terms_of pt = map (\<lambda>(t_ind, exps). (set (argwhere1 exps), t_ind))
       (filter (\<lambda>(t_ind, exps). max_list exps = 1 \<and> sum_list exps = 2) pt)"
  unfolding mixed_terms_of_def by (rule dict_of_distinct) (rule mixed_keys_distinct)

lemma mixed_terms_lookup:
  assumes "wf_polyterms r pt" "j < r" "k < r" "j \<noteq> k"
  shows "\<exists>f. dict_get (mixed_terms_of pt) {j, k} = Inr f \<and> f < length pt
             \<and> pt ! f = (f, mixed_exps r j k)"
proof -
  have "mixed_exps r j k \<in> set (map snd pt)"
  proof (cases "j < k")
    case True
    then show ?thesis using assms by (simp add: wf_polyterms_def)
  next
    case False
    then have "k < j" using assms by simp
    then have "mixed_exps r k j \<in> set (map snd pt)" using assms by (simp add: wf_polyterms_def)
    then show ?thesis by (simp add: mixed_exps_commute [of r j k])
  qed
  then obtain f where f: "(f, mixed_exps r j k) \<in> set pt" by auto
  have nth: "f < length pt \<and> pt ! f = (f, mixed_exps r j k)"
    using wf_nth [OF _ f] assms by (simp add: wf_polyterms_def)
  have "({j, k}, f) \<in> set (mixed_terms_of pt)"
    unfolding mixed_terms_of_eq [OF assms(1)] set_map set_filter
    by (rule image_eqI [where x = "(f, mixed_exps r j k)"])
       (use f mixed_exps_props [OF assms(2-4)] in simp_all)
  moreover have "distinct (map fst (mixed_terms_of pt))"
    unfolding mixed_terms_of_def by (rule distinct_dict_of)
  ultimately have "map_of (mixed_terms_of pt) {j, k} = Some f" by simp
  then show ?thesis using nth by (simp add: dict_get_def)
qed

section \<open>The quadratic projection tensor is what the loop writes\<close>

lemma wf_lib2: "wf_polyterms 2 lib2"
  by (simp add: wf_polyterms_def lib2_def lin_exps_def pure_exps_def mixed_exps_def
      lessThan_Suc numeral_2_eq_2 upt_rec)

lemma foldM_append:
  "foldM f (xs @ ys) s = (case foldM f xs s of Inl e \<Rightarrow> Inl e | Inr s' \<Rightarrow> foldM f ys s')"
  by (induction xs arbitrary: s) (auto split: sum.splits)

lemma assign_PQ_upto:
  assumes "shape PQ = (n, n, n, n, p)" "j < n" "k < n" "col < p" "m \<le> n"
  shows "foldM (\<lambda>i arr. setitem5 arr (i, j, k, i, col) v) [0..<m] PQ =
     Inr (PQ\<lparr>data := (\<lambda>ix. if \<exists>i<m. ix = (i, j, k, i, col) then v else data PQ ix)\<rparr>)"
  using assms(5)
proof (induction m)
  case 0
  then show ?case by simp
next
  case (Suc m)
  have fe: "(\<lambda>ix. if \<exists>i<m. ix = (i, j, k, i, col) then v else data PQ ix)((m, j, k, m, col) := v)
     = (\<lambda>ix. if \<exists>i<Suc m. ix = (i, j, k, i, col) then v else data PQ ix)"
    by (auto simp: fun_eq_iff less_Suc_eq)
  show ?case using Suc assms(1-4)
    by (simp add: foldM_append setitem5_def fe)
qed

lemma assign_PQ_ok:
  assumes "shape PQ = (n, n, n, n, p)" "j < n" "k < n" "col < p"
  shows "assign_PQ n j k col v PQ =
     Inr (PQ\<lparr>data := (\<lambda>ix. if \<exists>i<n. ix = (i, j, k, i, col) then v else data PQ ix)\<rparr>)"
  unfolding assign_PQ_def using assign_PQ_upto [OF assms order_refl] .

lemma wf_col_unique:
  assumes "wf_polyterms r pt" "c < length pt" "pt ! c = (c, e)" "f < length pt"
  shows "snd (pt ! f) = e \<longleftrightarrow> f = c"
proof -
  have "distinct (map snd pt)" using assms(1) by (simp add: wf_polyterms_def)
  then have "map snd pt ! f = map snd pt ! c \<longleftrightarrow> f = c"
    using assms(2,4) by (simp add: nth_eq_iff_index_eq del: nth_map)
  then show ?thesis using assms(2-4) by simp
qed

lemma PQ_step_ok:
  assumes wf: "wf_polyterms r pt" and sh: "shape PQ = (r, r, r, r, length pt)"
    and j: "j < r" and k: "k < r"
  shows "PQ_step r (pure_terms_of pt) (mixed_terms_of pt) (j, k) PQ =
     Inr (PQ\<lparr>data := (\<lambda>ix. case PQ_entry r pt {(j, k)} ix of Some v \<Rightarrow> v | None \<Rightarrow> data PQ ix)\<rparr>)"
proof (cases "j = k")
  case True
  obtain c where c: "dict_get (pure_terms_of pt) j = Inr c" "c < length pt" "pt ! c = (c, pure_exps r j)"
    using pure_terms_lookup [OF wf j] by blast
  have "(\<lambda>ix. if \<exists>i<r. ix = (i, j, j, i, c) then 1 else data PQ ix)
      = (\<lambda>ix. case PQ_entry r pt {(j, j)} ix of Some v \<Rightarrow> v | None \<Rightarrow> data PQ ix)"
    using wf_col_unique [OF wf c(2,3)] c(2) by (auto simp: fun_eq_iff PQ_entry_def)
  then show ?thesis using True c assign_PQ_ok [OF sh j j c(2), of 1]
    by (simp add: PQ_step_def)
next
  case False
  obtain c where c: "dict_get (mixed_terms_of pt) {j, k} = Inr c" "c < length pt"
      "pt ! c = (c, mixed_exps r j k)"
    using mixed_terms_lookup [OF wf j k False] by blast
  have "(\<lambda>ix. if \<exists>i<r. ix = (i, j, k, i, c) then 1 / 2 else data PQ ix)
      = (\<lambda>ix. case PQ_entry r pt {(j, k)} ix of Some v \<Rightarrow> v | None \<Rightarrow> data PQ ix)"
    using wf_col_unique [OF wf c(2,3)] c(2) False by (auto simp: fun_eq_iff PQ_entry_def)
  then show ?thesis using False c assign_PQ_ok [OF sh j k c(2), of "1 / 2"]
    by (simp add: PQ_step_def)
qed

lemma PQ_loop_ok:
  assumes wf: "wf_polyterms r pt"
  shows "shape PQ = (r, r, r, r, length pt) \<Longrightarrow> \<forall>(j, k) \<in> set jks. j < r \<and> k < r \<Longrightarrow>
     foldM (PQ_step r (pure_terms_of pt) (mixed_terms_of pt)) jks PQ =
     Inr (PQ\<lparr>data := (\<lambda>ix. case PQ_entry r pt (set jks) ix of Some v \<Rightarrow> v | None \<Rightarrow> data PQ ix)\<rparr>)"
proof (induction jks arbitrary: PQ)
  case Nil
  then show ?case by (simp add: PQ_entry_def case_prod_beta)
next
  case (Cons jk jks)
  obtain j k where jk: "jk = (j, k)" by (cases jk)
  have b: "j < r" "k < r" using Cons.prems(2) by (auto simp: jk)
  let ?PQ' = "PQ\<lparr>data := (\<lambda>ix. case PQ_entry r pt {(j, k)} ix of Some v \<Rightarrow> v | None \<Rightarrow> data PQ ix)\<rparr>"
  have step: "PQ_step r (pure_terms_of pt) (mixed_terms_of pt) jk PQ = Inr ?PQ'"
    unfolding jk by (rule PQ_step_ok [OF wf Cons.prems(1) b])
  have sh': "shape ?PQ' = (r, r, r, r, length pt)" using Cons.prems(1) by simp
  have rest: "\<forall>(j, k) \<in> set jks. j < r \<and> k < r" using Cons.prems(2) by simp
  have fe: "(\<lambda>ix. case PQ_entry r pt (set jks) ix of Some v \<Rightarrow> v | None \<Rightarrow> data ?PQ' ix)
     = (\<lambda>ix. case PQ_entry r pt (set (jk # jks)) ix of Some v \<Rightarrow> v | None \<Rightarrow> data PQ ix)"
    by (auto simp: fun_eq_iff PQ_entry_def jk split: option.splits if_splits)
  show ?case using Cons.IH [OF sh' rest] step fe by simp
qed

lemma wf_build_lib_info:
  assumes "wf_polyterms r pt"
  shows "build_lib_info pt = Inr (r, length pt, linear_terms_of pt, pure_terms_of pt, mixed_terms_of pt)"
proof -
  have r: "0 < r" using assms by (simp add: wf_polyterms_def)
  then have "pure_exps r 0 \<in> set (map snd pt)" using assms by (simp add: wf_polyterms_def)
  then obtain t0 e0 rest where pt: "pt = (t0, e0) # rest" by (cases pt) auto
  have len: "length e = r" if "(t, e) \<in> set pt" for t e using wf_exps [OF assms that] by simp
  have "length e0 = r" using len [of t0 e0] pt by simp
  moreover have "\<not> (\<exists>(t, exps) \<in> set pt. exps = [])" using len r by fastforce
  ultimately show ?thesis unfolding build_lib_info_def by (simp add: pt)
qed

lemma build_PQ_value:
  assumes "wf_polyterms r pt"
  shows "build_PQ pt = Inr (zeros (r, r, r, r, length pt)
     \<lparr>data := (\<lambda>ix. case PQ_entry r pt (set (List.product [0..<r] [0..<r])) ix of
        Some v \<Rightarrow> v | None \<Rightarrow> data (zeros (r, r, r, r, length pt) :: ix5 ndarray) ix)\<rparr>)"
  unfolding build_PQ_def using wf_build_lib_info [OF assms]
    PQ_loop_ok [OF assms, of "zeros (r, r, r, r, length pt)" "List.product [0..<r] [0..<r]"]
  by (simp add: zeros_def)

text \<open>
  Claim C1.  For a well-formed degree-2 term list in \<open>r\<close> variables (any \<open>r \<ge> 1\<close>, so in
  particular \<open>r \<ge> 2\<close>) \<open>_build_PQ\<close> returns a tensor of shape \<open>(r, r, r, r, p)\<close> whose
  entry \<open>(i, j, k, l, f)\<close> is 1 when \<open>l = i\<close>, \<open>j = k\<close> and \<open>f\<close> is the column of
  \<open>x\<^sub>j\<^sup>2\<close>, is 1/2 when \<open>l = i\<close>, \<open>j \<noteq> k\<close> and \<open>f\<close> is the column of \<open>x\<^sub>j x\<^sub>k\<close>, and is 0
  everywhere else.  Hence the tensor does not change when its axes 1 and 2 are swapped,
  and in the column of a pure quadratic term it is nonzero only where \<open>j = k\<close>.
\<close>

theorem build_PQ_entries:
  assumes "wf_polyterms r pt"
  shows "\<exists>PQ. build_PQ pt = Inr PQ \<and> shape PQ = (r, r, r, r, length pt) \<and>
    (\<forall>i j k l f. data PQ (i, j, k, l, f) =
       (if i < r \<and> j < r \<and> k < r \<and> l = i \<and> f < length pt
        then (if j = k then (if snd (pt ! f) = pure_exps r j then 1 else 0)
              else (if snd (pt ! f) = mixed_exps r j k then 1 / 2 else 0))
        else 0)) \<and>
    (\<forall>i j k l f. data PQ (i, j, k, l, f) = data PQ (i, k, j, l, f)) \<and>
    (\<forall>i j k l f m. f < length pt \<and> snd (pt ! f) = pure_exps r m \<and> data PQ (i, j, k, l, f) \<noteq> 0
        \<longrightarrow> j = k)"
proof -
  define Z :: "ix5 ndarray" where "Z = zeros (r, r, r, r, length pt)"
  define PQ where "PQ = Z\<lparr>data := (\<lambda>ix. case PQ_entry r pt (set (List.product [0..<r] [0..<r])) ix of
        Some v \<Rightarrow> v | None \<Rightarrow> data Z ix)\<rparr>"
  have b: "build_PQ pt = Inr PQ"
    unfolding PQ_def Z_def by (rule build_PQ_value [OF assms])
  have sh: "shape PQ = (r, r, r, r, length pt)" by (simp add: PQ_def Z_def zeros_def)
  have d: "data PQ (i, j, k, l, f) =
       (if i < r \<and> j < r \<and> k < r \<and> l = i \<and> f < length pt
        then (if j = k then (if snd (pt ! f) = pure_exps r j then 1 else 0)
              else (if snd (pt ! f) = mixed_exps r j k then 1 / 2 else 0))
        else 0)" for i j k l f
    by (simp add: PQ_def Z_def PQ_entry_def zeros_def)
  have sym: "data PQ (i, j, k, l, f) = data PQ (i, k, j, l, f)" for i j k l f
    unfolding d by (simp add: mixed_exps_commute [of r j k])
  have pm: "pure_exps r m \<noteq> mixed_exps r j k" if "j < r" "k < r" "j \<noteq> k" for m j k
  proof
    assume "pure_exps r m = mixed_exps r j k"
    then have "sum_list (pure_exps r m) = 2 \<and> max_list (pure_exps r m) = 1"
      using mixed_exps_props [OF that] by simp
    then have "2 \<notin> set (pure_exps r m)" using le_max_list [of 2 "pure_exps r m"] by auto
    then show False using \<open>sum_list (pure_exps r m) = 2 \<and> _\<close>
      by (cases "m < r")
        (auto simp: pure_exps_def sum_list_update set_update_memI list_update_beyond sum_list_replicate)
  qed
  have diag: "j = k" if "f < length pt" "snd (pt ! f) = pure_exps r m" "data PQ (i, j, k, l, f) \<noteq> 0"
    for i j k l f m
    using that pm [of j k m] unfolding d by (auto split: if_splits)
  show ?thesis
  proof (intro exI [of _ PQ] conjI allI impI)
    show "build_PQ pt = Inr PQ" by (rule b)
    show "shape PQ = (r, r, r, r, length pt)" by (rule sh)
    show "data PQ (i, j, k, l, f) =
       (if i < r \<and> j < r \<and> k < r \<and> l = i \<and> f < length pt
        then (if j = k then (if snd (pt ! f) = pure_exps r j then 1 else 0)
              else (if snd (pt ! f) = mixed_exps r j k then 1 / 2 else 0))
        else 0)" for i j k l f by (rule d)
    show "data PQ (i, j, k, l, f) = data PQ (i, k, j, l, f)" for i j k l f by (rule sym)
    show "j = k" if "f < length pt \<and> snd (pt ! f) = pure_exps r m \<and> data PQ (i, j, k, l, f) \<noteq> 0"
      for i j k l f m using that diag by blast
  qed
qed

theorem build_PQ_entries_witness:
  "wf_polyterms 2 lib2 \<and> (\<exists>PQ. build_PQ lib2 = Inr PQ \<and> shape PQ = (2, 2, 2, 2, 5) \<and>
     data PQ (0, 0, 0, 0, 2) = 1 \<and> data PQ (1, 0, 1, 1, 3) = 1 / 2 \<and> data PQ (1, 1, 0, 1, 3) = 1 / 2
     \<and> data PQ (0, 1, 1, 0, 4) = 1 \<and> data PQ (0, 1, 1, 1, 4) = 0 \<and> data PQ (0, 0, 1, 0, 2) = 0)"
proof -
  have wf: "wf_polyterms 2 lib2"
    by (simp add: wf_polyterms_def lib2_def lin_exps_def pure_exps_def mixed_exps_def
        lessThan_Suc numeral_2_eq_2 upt_rec)
  obtain PQ where PQ: "build_PQ lib2 = Inr PQ" "shape PQ = (2, 2, 2, 2, length lib2)"
    "\<forall>i j k l f. data PQ (i, j, k, l, f) =
       (if i < 2 \<and> j < 2 \<and> k < 2 \<and> l = i \<and> f < length lib2
        then (if j = k then (if snd (lib2 ! f) = pure_exps 2 j then 1 else 0)
              else (if snd (lib2 ! f) = mixed_exps 2 j k then 1 / 2 else 0))
        else 0)"
    using build_PQ_entries [OF wf] by blast
  show ?thesis using wf PQ(1,2) 
    by (simp add: PQ(3) lib2_def pure_exps_def mixed_exps_def numeral_2_eq_2)
qed

section \<open>The constraint blocks are built without an exception\<close>



lemma pure_terms_entries:
  assumes "wf_polyterms r pt" "(g, t) \<in> set (pure_terms_of pt)"
  shows "g < r \<and> t < length pt"
proof -
  obtain e where e: "(t, e) \<in> set pt" "max_list e = 2" "g = argmax e"
    using assms(2) unfolding pure_terms_of_eq [OF assms(1)] by auto
  have "length e = r" "sum_list e \<le> 2" using wf_exps [OF assms(1) e(1)] by auto
  then have "g < r" using pure_exps_char [of e] e by simp
  moreover have "t < length pt" using wf_nth [OF _ e(1)] assms(1) by (simp add: wf_polyterms_def)
  ultimately show ?thesis by simp
qed





lemma length_pure_terms:
  assumes "wf_polyterms r pt"
  shows "length (pure_terms_of pt) = r"
proof -
  have "fst ` set (pure_terms_of pt) = {..<r}"
  proof (intro set_eqI iffI)
    fix g assume "g \<in> fst ` set (pure_terms_of pt)"
    then show "g \<in> {..<r}" using pure_terms_entries [OF assms] by auto
  next
    fix g assume "g \<in> {..<r}"
    then obtain f where "dict_get (pure_terms_of pt) g = Inr f"
      using pure_terms_lookup [OF assms, of g] by auto
    then have "map_of (pure_terms_of pt) g = Some f"
      by (auto simp: dict_get_def split: option.splits)
    then show "g \<in> fst ` set (pure_terms_of pt)" by (force dest: map_of_SomeD)
  qed
  moreover have "distinct (map fst (pure_terms_of pt))"
    unfolding pure_terms_of_def by (rule distinct_dict_of)
  then have "card (fst ` set (pure_terms_of pt)) = length (pure_terms_of pt)"
    using distinct_card [of "map fst (pure_terms_of pt)"] by simp
  ultimately show ?thesis by simp
qed








section \<open>The constraint system\<close>



section \<open>The driver loop\<close>

lemma for_else_from:
  "state_after body s0 k = Some s \<Longrightarrow> k \<le> n \<Longrightarrow>
   for_else body orelse [0..<n] s0 = for_else body orelse [k..<n] s"
proof (induction k arbitrary: s)
  case 0
  then show ?case by simp
next
  case (Suc k)
  obtain s1 where s1: "state_after body s0 k = Some s1" "body k s1 = Inr (Continue s)"
    using Suc.prems(1) by (auto split: option.splits sum.splits flow.splits)
  have "for_else body orelse [0..<n] s0 = for_else body orelse [k..<n] s1"
    using Suc.IH [OF s1(1)] Suc.prems(2) by simp
  also have "[k..<n] = k # [Suc k..<n]" using Suc.prems(2) by (simp add: upt_conv_Cons)
  finally show ?case using s1(2) by simp
qed


lemma for_else_break:
  "state_after body s0 k = Some s \<Longrightarrow> k < n \<Longrightarrow> body k s = Inr (Break s') \<Longrightarrow>
   for_else body orelse [0..<n] s0 = Inr s'"
  using for_else_from [of body s0 k s n orelse] by (simp add: upt_conv_Cons)

lemma m_criterion_snoc:
  "mh \<noteq> [] \<Longrightarrow> m_convergence_criterion ps (mh @ [m']) = Inr (\<Sum>i<n_tgts ps. \<bar>last mh i - m' i\<bar>)"
  by (simp add: m_convergence_criterion_def neg_index_def nth_append last_conv_nth Suc_le_eq)

lemma coef_criterion_snoc:
  "convergence_criterion ps (h @ [c]) =
     Inr (sqrt (\<Sum>i<n_tgts ps. \<Sum>j<n_features ps. (c i j - (if h = [] then 0 else last h i j))\<^sup>2))"
  by (cases "h = []") (simp_all add: convergence_criterion_def neg_index_def nth_append last_conv_nth Suc_le_eq)

lemma body_coef_infeasible:
  assumes "update_coef ps sv (compute_P_A sv (trap_ctr st)) (A st) (coef_sparse st) = None"
  shows "loop_body ps sv x y k st =
     Inr (Break (st\<lparr>p_history := p_history st @ [compute_P_A sv (trap_ctr st)]\<rparr>))"
  using assms by (simp add: loop_body_def Let_def split: if_splits)

lemma body_m_infeasible:
  assumes "update_coef ps sv (compute_P_A sv (trap_ctr st)) (A st) (coef_sparse st) = Some c" "solve_m_relax_and_split sv (trap_ctr st) (A st) c = (None, A')"
  shows "loop_body ps sv x y k st =
     Inr (Break (st\<lparr>p_history := p_history st @ [compute_P_A sv (trap_ctr st)], coef_sparse := c,
                     A := A', trap_ctr := trap_prev_ctr st\<rparr>))"
  using assms by (simp add: loop_body_def Let_def split: if_splits)

lemma body_completed:
  assumes "update_coef ps sv (compute_P_A sv (trap_ctr st)) (A st) (coef_sparse st) = Some c"
    "solve_m_relax_and_split sv (trap_ctr st) (A st) c = (Some m', A')" "m_history st \<noteq> []"
  shows "loop_body ps sv x y k st =
     (let st3 = record_iteration ps sv x y (compute_P_A sv (trap_ctr st))
                  (st\<lparr>p_history := p_history st @ [compute_P_A sv (trap_ctr st)], coef_sparse := c,
                      trap_ctr := m', A := A'\<rparr>)
      in if (\<Sum>i<n_tgts ps. \<bar>last (m_history st) i - m' i\<bar>) < tol_m ps \<and>
            sqrt (\<Sum>i<n_tgts ps. \<Sum>j<n_features ps.
                   (transpose_mat c i j - (if history st = [] then 0 else last (history st) i j))\<^sup>2) < tol ps
         then Inr (Break st3) else Inr (Continue st3))"
  using assms
  by (simp add: loop_body_def Let_def record_iteration_def m_criterion_snoc
      coef_criterion_snoc split: if_splits)

lemma hist_ext_refl: "hist_ext st st"
  by (simp add: hist_ext_def)

lemma hist_ext_trans: "hist_ext a b \<Longrightarrow> hist_ext b c \<Longrightarrow> hist_ext a c"
  unfolding hist_ext_def by (meson prefix_order.trans)

lemma loop_inv_initial: "loop_inv ps 0 (initial_state ps coef_init)"
  by (simp add: loop_inv_def initial_state_def)

lemma loop_inv_m_history: "loop_inv ps k st \<Longrightarrow> m_history st \<noteq> []"
  by (auto simp: loop_inv_def)

lemma record_iteration_fields:
  "history (record_iteration ps sv x y P st) = history st @ [transpose_mat (coef_sparse st)]"
  "m_history (record_iteration ps sv x y P st) = m_history st @ [trap_ctr st]"
  "A_history (record_iteration ps sv x y P st) = A_history st @ [A st]"
  "PW_history (record_iteration ps sv x y P st) = PW_history st @ [tensordot_PW sv P (coef_sparse st)]"
  "PWeigs_history (record_iteration ps sv x y P st) =
      PWeigs_history st @ [sorted_eigvals sv (tensordot_PW sv P (coef_sparse st))]"
  "objective_history (record_iteration ps sv x y P st) =
      objective_history st @ [objective ps x y (coef_sparse st) (A st) (tensordot_PW sv P (coef_sparse st))]"
  "p_history (record_iteration ps sv x y P st) = p_history st"
  "coef_sparse (record_iteration ps sv x y P st) = coef_sparse st"
  "trap_ctr (record_iteration ps sv x y P st) = trap_ctr st"
  "A (record_iteration ps sv x y P st) = A st"
  "trap_prev_ctr (record_iteration ps sv x y P st) = trap_prev_ctr st"
  "warnings (record_iteration ps sv x y P st) = warnings st"
  by (simp_all add: record_iteration_def Let_def)

text \<open>The three ways an iteration can end, from a state that satisfies the invariant.\<close>

lemma body_cases:
  assumes inv: "loop_inv ps k st"
  obtains
    (coef_infeasible) "update_coef ps sv (compute_P_A sv (trap_ctr st)) (A st) (coef_sparse st) = None"
      "loop_body ps sv x y k st =
         Inr (Break (st\<lparr>p_history := p_history st @ [compute_P_A sv (trap_ctr st)]\<rparr>))"
  | (m_infeasible) c A' where
      "update_coef ps sv (compute_P_A sv (trap_ctr st)) (A st) (coef_sparse st) = Some c"
      "solve_m_relax_and_split sv (trap_ctr st) (A st) c = (None, A')"
      "loop_body ps sv x y k st =
         Inr (Break (st\<lparr>p_history := p_history st @ [compute_P_A sv (trap_ctr st)], coef_sparse := c,
                     A := A', trap_ctr := trap_prev_ctr st\<rparr>))"
  | (completed) c m' A' st3 where
      "update_coef ps sv (compute_P_A sv (trap_ctr st)) (A st) (coef_sparse st) = Some c"
      "solve_m_relax_and_split sv (trap_ctr st) (A st) c = (Some m', A')"
      "st3 = record_iteration ps sv x y (compute_P_A sv (trap_ctr st))
                  (st\<lparr>p_history := p_history st @ [compute_P_A sv (trap_ctr st)], coef_sparse := c,
                      trap_ctr := m', A := A'\<rparr>)"
      "loop_body ps sv x y k st = Inr (Break st3) \<or> loop_body ps sv x y k st = Inr (Continue st3)"
      "loop_inv ps (Suc k) st3" "hist_ext st st3"
proof (cases "update_coef ps sv (compute_P_A sv (trap_ctr st)) (A st) (coef_sparse st)")
  case None
  then show ?thesis using coef_infeasible body_coef_infeasible by blast
next
  case (Some c)
  obtain mo A' where s: "solve_m_relax_and_split sv (trap_ctr st) (A st) c = (mo, A')"
    by (cases "solve_m_relax_and_split sv (trap_ctr st) (A st) c")
  show ?thesis
  proof (cases mo)
    case None
    then show ?thesis using m_infeasible Some s body_m_infeasible by blast
  next
    case (Some m')
    define st3 where "st3 = record_iteration ps sv x y (compute_P_A sv (trap_ctr st))
                  (st\<lparr>p_history := p_history st @ [compute_P_A sv (trap_ctr st)], coef_sparse := c,
                      trap_ctr := m', A := A'\<rparr>)"
    have b: "loop_body ps sv x y k st = Inr (Break st3) \<or> loop_body ps sv x y k st = Inr (Continue st3)"
      using body_completed [OF \<open>update_coef _ _ _ _ _ = Some c\<close> s [unfolded Some] loop_inv_m_history [OF inv],
          of x y k]
      by (simp add: Let_def st3_def split: if_splits)
    have i: "loop_inv ps (Suc k) st3"
      using inv by (simp add: loop_inv_def st3_def record_iteration_fields)
    have e: "hist_ext st st3"
      by (simp add: hist_ext_def st3_def record_iteration_fields)
    show ?thesis using completed [OF \<open>update_coef _ _ _ _ _ = Some c\<close> s [unfolded Some] st3_def b i e] .
  qed
qed

lemma state_after_inv:
  "state_after (loop_body ps sv x y) (initial_state ps coef_init) k = Some st \<Longrightarrow> loop_inv ps k st"
proof (induction k arbitrary: st)
  case 0
  then show ?case using loop_inv_initial [of ps coef_init] by auto
next
  case (Suc k)
  obtain s where s: "state_after (loop_body ps sv x y) (initial_state ps coef_init) k = Some s"
      "loop_body ps sv x y k s = Inr (Continue st)"
    using Suc.prems by (auto split: option.splits sum.splits flow.splits)
  have inv: "loop_inv ps k s" by (rule Suc.IH [OF s(1)])
  show ?case using inv
  proof (cases rule: body_cases [where sv = sv and x = x and y = y])
    case coef_infeasible
    then show ?thesis using s(2) by simp
  next
    case (m_infeasible c A')
    then show ?thesis using s(2) by simp
  next
    case (completed c m' A' st3)
    then show ?thesis using s(2) by auto
  qed
qed

lemma for_else_result:
  assumes "loop_inv ps k s" "k \<le> n"
  shows "\<exists>fin. for_else (loop_body ps sv x y)
            (\<lambda>st. st\<lparr>warnings := warnings st @ [ConvergenceWarning (max_iter ps)]\<rparr>) [k..<n] s = Inr fin
          \<and> final_lengths n fin \<and> hist_ext s fin"
  using assms
proof (induction "n - k" arbitrary: k s)
  case 0
  then have "k = n" by simp
  then show ?case using "0.prems"(1) by (simp add: final_lengths_def loop_inv_def hist_ext_def)
next
  case (Suc d)
  then have kn: "k < n" by simp
  then have up: "[k..<n] = k # [Suc k..<n]" by (simp add: upt_conv_Cons)
  show ?case using Suc.prems(1)
  proof (cases rule: body_cases [where sv = sv and x = x and y = y])
    case coef_infeasible
    then show ?thesis using Suc.prems(1) kn
      by (simp add: up final_lengths_def loop_inv_def hist_ext_def)
  next
    case (m_infeasible c A')
    then show ?thesis using Suc.prems(1) kn
      by (simp add: up final_lengths_def loop_inv_def hist_ext_def)
  next
    case (completed c m' A' st3)
    from completed(4) show ?thesis
    proof
      assume b: "loop_body ps sv x y k s = Inr (Break st3)"
      have "final_lengths n st3" using completed(5) kn by (simp add: final_lengths_def loop_inv_def)
      then show ?thesis using b completed(6) by (simp add: up)
    next
      assume c: "loop_body ps sv x y k s = Inr (Continue st3)"
      have "d = n - Suc k" using Suc.hyps(2) by simp
      then obtain fin where fin: "for_else (loop_body ps sv x y)
            (\<lambda>st. st\<lparr>warnings := warnings st @ [ConvergenceWarning (max_iter ps)]\<rparr>) [Suc k..<n] st3 = Inr fin"
          "final_lengths n fin" "hist_ext st3 fin"
        using Suc.hyps(1) [OF _ completed(5)] kn by auto
      show ?thesis using c fin hist_ext_trans [OF completed(6) fin(3)] by (simp add: up)
    qed
  qed
qed

lemma reduce_eq:
  "for_else (loop_body ps sv x y)
      (\<lambda>st. st\<lparr>warnings := warnings st @ [ConvergenceWarning (max_iter ps)]\<rparr>)
      [0..<max_iter ps] (initial_state ps coef_init) = Inr s \<Longrightarrow>
   reduce ps sv x y coef_init = Inr (s\<lparr>self_coef := transpose_mat (coef_sparse s)\<rparr>)"
  by (simp add: reduce_def)

lemma transpose_transpose [simp]: "transpose_mat (transpose_mat a) = a"
  by (simp add: transpose_mat_def)


lemma iteration_outcome:
  assumes reach: "state_after (loop_body ps sv x y) (initial_state ps coef_init) k = Some st"
    and k: "k < max_iter ps"
    and c: "update_coef ps sv (compute_P_A sv (trap_ctr st)) (A st) (coef_sparse st) = Some c"
    and m: "solve_m_relax_and_split sv (trap_ctr st) (A st) c = (Some m', A')"
  shows "let err_m = (\<Sum>i<n_tgts ps. \<bar>last (m_history st) i - m' i\<bar>);
             err_coef = sqrt (\<Sum>i<n_tgts ps. \<Sum>j<n_features ps.
                 (transpose_mat c i j - (if k = 0 then 0 else last (history st) i j))\<^sup>2);
             converged = (err_m < tol_m ps \<and> err_coef < tol ps)
         in (converged \<longrightarrow>
               state_after (loop_body ps sv x y) (initial_state ps coef_init) (Suc k) = None \<and>
               (\<exists>fin. reduce ps sv x y coef_init = Inr fin \<and>
                  history fin = history st @ [transpose_mat c] \<and>
                  m_history fin = m_history st @ [m'] \<and>
                  self_coef fin = transpose_mat c \<and> warnings fin = [])) \<and>
            (\<not> converged \<longrightarrow>
               (\<exists>st'. state_after (loop_body ps sv x y) (initial_state ps coef_init) (Suc k) = Some st' \<and>
                  history st' = history st @ [transpose_mat c] \<and>
                  m_history st' = m_history st @ [m']))"
proof -
  have inv: "loop_inv ps k st" by (rule state_after_inv [OF reach])
  have h0: "history st = [] \<longleftrightarrow> k = 0" using inv by (auto simp: loop_inv_def)
  define st3 where "st3 = record_iteration ps sv x y (compute_P_A sv (trap_ctr st))
                  (st\<lparr>p_history := p_history st @ [compute_P_A sv (trap_ctr st)], coef_sparse := c,
                      trap_ctr := m', A := A'\<rparr>)"
  define conv where "conv \<longleftrightarrow> (\<Sum>i<n_tgts ps. \<bar>last (m_history st) i - m' i\<bar>) < tol_m ps \<and>
       sqrt (\<Sum>i<n_tgts ps. \<Sum>j<n_features ps.
                 (transpose_mat c i j - (if k = 0 then 0 else last (history st) i j))\<^sup>2) < tol ps"
  have body: "loop_body ps sv x y k st = (if conv then Inr (Break st3) else Inr (Continue st3))"
    using body_completed [OF c m loop_inv_m_history [OF inv], of x y k]
    by (simp add: Let_def st3_def conv_def h0)
  have f3: "history st3 = history st @ [transpose_mat c]" "m_history st3 = m_history st @ [m']"
      "coef_sparse st3 = c" "warnings st3 = []"
    using inv by (simp_all add: st3_def record_iteration_fields loop_inv_def)
  have yes: "state_after (loop_body ps sv x y) (initial_state ps coef_init) (Suc k) = None \<and>
               (\<exists>fin. reduce ps sv x y coef_init = Inr fin \<and>
                  history fin = history st @ [transpose_mat c] \<and>
                  m_history fin = m_history st @ [m'] \<and>
                  self_coef fin = transpose_mat c \<and> warnings fin = [])" if conv
  proof -
    have b: "loop_body ps sv x y k st = Inr (Break st3)" using body that by simp
    have "reduce ps sv x y coef_init = Inr (st3\<lparr>self_coef := transpose_mat (coef_sparse st3)\<rparr>)"
      by (rule reduce_eq) (rule for_else_break [OF reach k b])
    then show ?thesis using f3 b reach by simp
  qed
  have no: "\<exists>st'. state_after (loop_body ps sv x y) (initial_state ps coef_init) (Suc k) = Some st' \<and>
                  history st' = history st @ [transpose_mat c] \<and>
                  m_history st' = m_history st @ [m']" if "\<not> conv"
    using body that reach f3 by simp
  show ?thesis using yes no unfolding Let_def conv_def by blast
qed

text \<open>
  Claim C4, amended.  Take the state at the start of iteration \<open>k\<close> and suppose both
  updates of that iteration succeed.  The loop leaves through the convergence \<open>break\<close>
  exactly when both tests hold: the L1 norm of the difference between the trap centre
  recorded last and the new one is below \<open>tol_m\<close>, and the L2 norm of the difference
  between the new coefficients and the coefficients recorded last is below \<open>tol\<close>, where
  in the first iteration, when nothing has been recorded yet, the zero matrix takes the
  place of the previous coefficients.  If one of the two fails, the iteration is recorded
  and the loop goes on to iteration \<open>k + 1\<close>.
\<close>

theorem convergence_exit_iff:
  assumes reach: "state_after (loop_body ps sv x y) (initial_state ps coef_init) k = Some st"
    and k: "k < max_iter ps"
    and c: "update_coef ps sv (compute_P_A sv (trap_ctr st)) (A st) (coef_sparse st) = Some c"
    and m: "solve_m_relax_and_split sv (trap_ctr st) (A st) c = (Some m', A')"
  shows "let err_m = (\<Sum>i<n_tgts ps. \<bar>last (m_history st) i - m' i\<bar>);
             err_coef = sqrt (\<Sum>i<n_tgts ps. \<Sum>j<n_features ps.
                 (transpose_mat c i j - (if k = 0 then 0 else last (history st) i j))\<^sup>2);
             converged = (err_m < tol_m ps \<and> err_coef < tol ps)
         in (converged \<longrightarrow>
               state_after (loop_body ps sv x y) (initial_state ps coef_init) (Suc k) = None \<and>
               (\<exists>fin. reduce ps sv x y coef_init = Inr fin \<and>
                  history fin = history st @ [transpose_mat c] \<and>
                  m_history fin = m_history st @ [m'] \<and>
                  self_coef fin = transpose_mat c \<and> warnings fin = [])) \<and>
            (\<not> converged \<longrightarrow>
               (\<exists>st'. state_after (loop_body ps sv x y) (initial_state ps coef_init) (Suc k) = Some st' \<and>
                  history st' = history st @ [transpose_mat c] \<and>
                  m_history st' = m_history st @ [m']))"
  by (rule iteration_outcome [OF assms])



text \<open>
  Claim C9, amended.  \<open>_reduce\<close> always returns.  The coefficient, PW and PW-eigenvalue
  histories have one entry per completed iteration; the trap-centre and \<open>A\<close> histories
  start with \<open>m0\<close> and \<open>A0\<close> and so have one entry more; the P-matrix history gets its
  entry at the start of an iteration and so has either as many entries as there are
  completed iterations or one more.  At the start of iteration \<open>k\<close> the lengths are
  \<open>k\<close>, \<open>k + 1\<close> and \<open>k\<close>, and every history is a prefix of what it is at the end.
\<close>

theorem history_buffers:
  "\<exists>fin. reduce ps sv x y coef_init = Inr fin \<and>
     length (history fin) \<le> max_iter ps \<and>
     length (PW_history fin) = length (history fin) \<and>
     length (PWeigs_history fin) = length (history fin) \<and>
     length (m_history fin) = length (history fin) + 1 \<and>
     length (A_history fin) = length (history fin) + 1 \<and>
     (length (p_history fin) = length (history fin) \<or>
      length (p_history fin) = length (history fin) + 1) \<and>
     (\<forall>k st. k \<le> max_iter ps \<and>
        state_after (loop_body ps sv x y) (initial_state ps coef_init) k = Some st \<longrightarrow>
        length (history st) = k \<and> length (PW_history st) = k \<and> length (PWeigs_history st) = k \<and>
        length (p_history st) = k \<and> length (m_history st) = k + 1 \<and> length (A_history st) = k + 1 \<and>
        prefix (history st) (history fin) \<and> prefix (m_history st) (m_history fin) \<and>
        prefix (A_history st) (A_history fin) \<and> prefix (p_history st) (p_history fin) \<and>
        prefix (PW_history st) (PW_history fin) \<and> prefix (PWeigs_history st) (PWeigs_history fin))"
proof -
  let ?els = "\<lambda>st :: ('a, 'b) fit_state. st\<lparr>warnings := warnings st @ [ConvergenceWarning (max_iter ps)]\<rparr>"
  let ?s0 = "initial_state ps coef_init :: ('a, 'b) fit_state"
  obtain s where s: "for_else (loop_body ps sv x y) ?els [0..<max_iter ps] ?s0 = Inr s"
      "final_lengths (max_iter ps) s"
    using for_else_result [OF loop_inv_initial, of "max_iter ps" ps sv x y coef_init] by auto
  define fin where "fin = s\<lparr>self_coef := transpose_mat (coef_sparse s)\<rparr>"
  have r: "reduce ps sv x y coef_init = Inr fin" unfolding fin_def by (rule reduce_eq [OF s(1)])
  have fl: "final_lengths (max_iter ps) fin" using s(2) by (simp add: final_lengths_def fin_def)
  have reach: "length (history st) = k \<and> length (PW_history st) = k \<and> length (PWeigs_history st) = k \<and>
        length (p_history st) = k \<and> length (m_history st) = k + 1 \<and> length (A_history st) = k + 1 \<and>
        prefix (history st) (history fin) \<and> prefix (m_history st) (m_history fin) \<and>
        prefix (A_history st) (A_history fin) \<and> prefix (p_history st) (p_history fin) \<and>
        prefix (PW_history st) (PW_history fin) \<and> prefix (PWeigs_history st) (PWeigs_history fin)"
    if k: "k \<le> max_iter ps"
      and st: "state_after (loop_body ps sv x y) ?s0 k = Some st" for k st
  proof -
    have inv: "loop_inv ps k st" by (rule state_after_inv [OF st])
    obtain s' where s': "for_else (loop_body ps sv x y) ?els [k..<max_iter ps] st = Inr s'"
        "hist_ext st s'"
      using for_else_result [OF inv k, of sv x y] by auto
    have "s' = s" using for_else_from [OF st k, of ?els] s(1) s'(1) by simp
    then have "hist_ext st fin" using s'(2) by (simp add: hist_ext_def fin_def)
    then show ?thesis using inv by (simp add: hist_ext_def loop_inv_def)
  qed
  show ?thesis
    apply (rule exI [of _ fin])
    using r fl reach unfolding final_lengths_def by blast
qed

lemma ex_params_fields:
  "n_tgts (ex_params n meth) = 1" "n_features (ex_params n meth) = 2"
  "max_iter (ex_params n meth) = n" "threshold (ex_params n meth) = 0"
  "inequality_constraints (ex_params n meth) = False"
  "tol (ex_params n meth) = 1" "tol_m (ex_params n meth) = 1"
  "m0 (ex_params n meth) = (\<lambda>i. 0)" "A0 (ex_params n meth) = (\<lambda>i j. if i = j then - 1 else 0)"
  by (simp_all add: ex_params_def)

lemma ex_update_coef:
  "update_coef (ex_params n meth) (ex_solvers_steady v) P A' c = Some (const_mat v)"
  "update_coef (ex_params n meth) (ex_solvers_failing v) P A' c = Some (const_mat v)"
  by (simp_all add: update_coef_def ex_params_fields ex_solvers_steady_def ex_solvers_failing_def)

lemma ex_solve_m:
  "solve_m_relax_and_split (ex_solvers_steady v) m A' c = (Some m, A')"
  "m 0 = 0 \<Longrightarrow> solve_m_relax_and_split (ex_solvers_failing v) m A' c = (Some (const_vec 3), A')"
  "m 0 \<noteq> 0 \<Longrightarrow> solve_m_relax_and_split (ex_solvers_failing v) m A' c = (None, A')"
  by (simp_all add: ex_solvers_steady_def ex_solvers_failing_def)

lemma initial_fields:
  "history (initial_state ps c0) = []" "m_history (initial_state ps c0) = [m0 ps]"
  "trap_ctr (initial_state ps c0) = m0 ps" "A (initial_state ps c0) = A0 ps"
  "coef_sparse (initial_state ps c0) = transpose_mat c0"
  by (simp_all add: initial_state_def)

theorem first_iteration_convergence_counterexample:
  "map_option (length \<circ> history)
     (result_of (reduce (ex_params 3 ''global'') (ex_solvers_steady 0) (const_mat 0) (const_mat 0)
        (const_mat 5))) = Some 1 \<and>
   map_option warnings
     (result_of (reduce (ex_params 3 ''global'') (ex_solvers_steady 0) (const_mat 0) (const_mat 0)
        (const_mat 5))) = Some [] \<and>
   map_option (claimed_convergence (ex_params 3 ''global''))
     (result_of (reduce (ex_params 3 ''global'') (ex_solvers_steady 0) (const_mat 0) (const_mat 0)
        (const_mat 5))) = Some False"
proof -
  let ?ps = "ex_params 3 ''global''"
  let ?sv = "ex_solvers_steady 0"
  let ?s0 = "initial_state ?ps (const_mat 5) :: (unit, unit) fit_state"
  have r0: "state_after (loop_body ?ps ?sv (const_mat 0) (const_mat 0)) ?s0 0 = Some ?s0" by simp
  have k: "0 < max_iter ?ps" by (simp add: ex_params_fields)
  have c: "update_coef ?ps ?sv (compute_P_A ?sv (trap_ctr ?s0)) (A ?s0) (coef_sparse ?s0) = Some (const_mat 0)"
    by (rule ex_update_coef)
  have m: "solve_m_relax_and_split ?sv (trap_ctr ?s0) (A ?s0) (const_mat 0) = (Some (trap_ctr ?s0), A ?s0)"
    by (rule ex_solve_m)
  obtain fin where fin: "reduce ?ps ?sv (const_mat 0) (const_mat 0) (const_mat 5) = Inr fin"
      "history fin = history ?s0 @ [transpose_mat (const_mat 0)]" "warnings fin = []"
    using iteration_outcome [OF r0 k c m]
    by (auto simp: Let_def ex_params_fields initial_fields const_mat_def transpose_mat_def)
  show ?thesis
    by (simp add: fin result_of_def claimed_convergence_def initial_fields)
qed

theorem convergence_exit_iff_witness:
  "state_after (loop_body (ex_params 3 ''global'') (ex_solvers_steady 0) (const_mat 0) (const_mat 0))
      (initial_state (ex_params 3 ''global'') (const_mat 5)) 0
     = Some (initial_state (ex_params 3 ''global'') (const_mat 5)) \<and>
   0 < max_iter (ex_params 3 ''global'') \<and>
   (\<exists>fin. reduce (ex_params 3 ''global'') (ex_solvers_steady 0) (const_mat 0) (const_mat 0)
        (const_mat 5) = Inr fin \<and>
      history fin = [transpose_mat (const_mat 0)] \<and> warnings fin = []) \<and>
   (\<exists>st'. state_after (loop_body (ex_params 3 ''global'') (ex_solvers_steady 7) (const_mat 0) (const_mat 0))
      (initial_state (ex_params 3 ''global'') (const_mat 5)) (Suc 0) = Some st' \<and>
      history st' = [transpose_mat (const_mat 7)])"
proof -
  let ?ps = "ex_params 3 ''global''"
  let ?s0 = "initial_state ?ps (const_mat 5) :: (unit, unit) fit_state"
  have r0: "state_after (loop_body ?ps sv (const_mat 0) (const_mat 0)) ?s0 0 = Some ?s0"
    for sv :: "(unit, unit) solvers" by simp
  have k: "0 < max_iter ?ps" by (simp add: ex_params_fields)
  have c: "update_coef ?ps (ex_solvers_steady v) (compute_P_A (ex_solvers_steady v) (trap_ctr ?s0))
      (A ?s0) (coef_sparse ?s0) = Some (const_mat v)" for v
    by (rule ex_update_coef)
  have m: "solve_m_relax_and_split (ex_solvers_steady v) (trap_ctr ?s0) (A ?s0) (const_mat v)
      = (Some (trap_ctr ?s0), A ?s0)" for v
    by (rule ex_solve_m)
  have a: "\<exists>fin. reduce ?ps (ex_solvers_steady 0) (const_mat 0) (const_mat 0) (const_mat 5) = Inr fin \<and>
      history fin = [transpose_mat (const_mat 0)] \<and> warnings fin = []"
    using convergence_exit_iff [OF r0 k c m, of 0]
    by (auto simp: Let_def ex_params_fields initial_fields const_mat_def transpose_mat_def)
  have b: "\<exists>st'. state_after (loop_body ?ps (ex_solvers_steady 7) (const_mat 0) (const_mat 0)) ?s0 (Suc 0)
       = Some st' \<and> history st' = [transpose_mat (const_mat 7)]"
    using convergence_exit_iff [OF r0 k c m, of 7]
    by (auto simp: Let_def ex_params_fields initial_fields const_mat_def transpose_mat_def
        lessThan_Suc numeral_2_eq_2 real_sqrt_lt_1_iff)
  show ?thesis using r0 [of "ex_solvers_steady 0"] k a b by blast
qed

lemma ex_failing_run:
  "\<exists>fin. reduce (ex_params 3 ''global'') (ex_solvers_failing 7) (const_mat 0) (const_mat 0)
        (const_mat 7) = Inr fin \<and>
     trap_ctr fin = const_vec 0 \<and> m_history fin = [const_vec 0, const_vec 3] \<and> warnings fin = [] \<and>
     length (history fin) = 1 \<and> length (p_history fin) = 2 \<and> length (A_history fin) = 2 \<and>
     length (PW_history fin) = 1 \<and> length (PWeigs_history fin) = 1 \<and>
     self_coef fin = transpose_mat (const_mat 7)"
proof -
  let ?ps = "ex_params 3 ''global''"
  let ?sv = "ex_solvers_failing 7"
  let ?body = "loop_body ?ps ?sv (const_mat 0) (const_mat 0)"
  let ?s0 = "initial_state ?ps (const_mat 7) :: (unit, unit) fit_state"
  have r0: "state_after ?body ?s0 0 = Some ?s0" by simp
  have k0: "0 < max_iter ?ps" by (simp add: ex_params_fields)
  have c0: "update_coef ?ps ?sv (compute_P_A ?sv (trap_ctr ?s0)) (A ?s0) (coef_sparse ?s0) = Some (const_mat 7)"
    by (rule ex_update_coef)
  have m0: "solve_m_relax_and_split ?sv (trap_ctr ?s0) (A ?s0) (const_mat 7) = (Some (const_vec 3), A ?s0)"
    by (rule ex_solve_m) (simp add: initial_fields ex_params_fields)
  obtain st1 where st1: "state_after ?body ?s0 (Suc 0) = Some st1"
      "history st1 = [transpose_mat (const_mat 7)]" "m_history st1 = [const_vec 0, const_vec 3]"
    using iteration_outcome [OF r0 k0 c0 m0]
    by (auto simp: Let_def ex_params_fields initial_fields const_vec_def)
  have inv: "loop_inv ?ps (Suc 0) st1" by (rule state_after_inv [OF st1(1)])
  have t1: "trap_ctr st1 = const_vec 3" "trap_prev_ctr st1 = const_vec 0"
    using inv st1(3) by (simp_all add: loop_inv_def ex_params_fields const_vec_def)
  have k1: "Suc 0 < max_iter ?ps" by (simp add: ex_params_fields)
  have c1: "update_coef ?ps ?sv (compute_P_A ?sv (trap_ctr st1)) (A st1) (coef_sparse st1) = Some (const_mat 7)"
    by (rule ex_update_coef)
  have m1: "solve_m_relax_and_split ?sv (trap_ctr st1) (A st1) (const_mat 7) = (None, A st1)"
    by (rule ex_solve_m) (simp add: t1 const_vec_def)
  show ?thesis
    using reduce_eq [OF for_else_break [OF st1(1) k1 body_m_infeasible [OF c1 m1]]] inv st1 t1
    by (simp add: loop_inv_def)
qed


theorem history_buffers_counterexample:
  "map_option (length \<circ> history)
     (result_of (reduce (ex_params 3 ''global'') (ex_solvers_failing 7) (const_mat 0) (const_mat 0)
        (const_mat 7))) = Some 1 \<and>
   map_option (length \<circ> m_history)
     (result_of (reduce (ex_params 3 ''global'') (ex_solvers_failing 7) (const_mat 0) (const_mat 0)
        (const_mat 7))) = Some 2 \<and>
   map_option (length \<circ> A_history)
     (result_of (reduce (ex_params 3 ''global'') (ex_solvers_failing 7) (const_mat 0) (const_mat 0)
        (const_mat 7))) = Some 2 \<and>
   map_option (length \<circ> p_history)
     (result_of (reduce (ex_params 3 ''global'') (ex_solvers_failing 7) (const_mat 0) (const_mat 0)
        (const_mat 7))) = Some 2"
  using ex_failing_run by (auto simp: result_of_def)



theorem history_buffers_witness:
  "0 \<le> max_iter (ex_params 3 ''global'') \<and>
   state_after (loop_body (ex_params 3 ''global'') (ex_solvers_failing 7) (const_mat 0) (const_mat 0))
      (initial_state (ex_params 3 ''global'') (const_mat 7)) 0
     = Some (initial_state (ex_params 3 ''global'') (const_mat 7)) \<and>
   (\<exists>fin. reduce (ex_params 3 ''global'') (ex_solvers_failing 7) (const_mat 0) (const_mat 0)
        (const_mat 7) = Inr fin \<and>
      length (history fin) \<le> 3 \<and>
      length (PW_history fin) = length (history fin) \<and>
      length (m_history fin) = length (history fin) + 1 \<and>
      prefix (m_history (initial_state (ex_params 3 ''global'') (const_mat 7) :: (unit, unit) fit_state))
        (m_history fin))"
proof -
  let ?ps = "ex_params 3 ''global''"
  let ?sv = "ex_solvers_failing 7"
  let ?s0 = "initial_state ?ps (const_mat 7) :: (unit, unit) fit_state"
  have r0: "state_after (loop_body ?ps ?sv (const_mat 0) (const_mat 0)) ?s0 0 = Some ?s0" by simp
  obtain fin where fin: "reduce ?ps ?sv (const_mat 0) (const_mat 0) (const_mat 7) = Inr fin"
     "length (history fin) \<le> max_iter ?ps" "length (PW_history fin) = length (history fin)"
     "length (m_history fin) = length (history fin) + 1"
     "\<forall>k st. k \<le> max_iter ?ps \<and>
        state_after (loop_body ?ps ?sv (const_mat 0) (const_mat 0)) ?s0 k = Some st \<longrightarrow>
        prefix (m_history st) (m_history fin)"
    using history_buffers [of ?ps ?sv "const_mat 0" "const_mat 0" "const_mat 7"] by blast
  have "prefix (m_history ?s0) (m_history fin)" using fin(5) r0 by blast
  then show ?thesis using fin(1-4) r0 by (auto simp: ex_params_fields)
qed

section \<open>The objective value\<close>

lemma objective_global:
  "self_method ps \<noteq> ''local'' \<Longrightarrow>
   objective ps x y coef A' PW = sindy_loss ps x y coef + relax_loss ps A' PW + L1_penalty ps coef"
  by (simp add: objective_def)

lemma objective_local:
  "self_method ps = ''local'' \<Longrightarrow>
   objective ps x y coef A' PW =
     sindy_loss ps x y coef + relax_loss ps A' PW + L1_penalty ps coef + 2 * nonlin_ens_loss ps coef"
  by (simp add: objective_def)

lemma ex_Qijk: "Qijk (ex_params n meth) ex_coef 0 0 0 = 1"
  by (simp add: Qijk_def ex_params_def ex_PQ_def ex_coef_def lessThan_Suc numeral_2_eq_2)

lemma ex_losses:
  "sindy_loss (ex_params n meth) (const_mat 0) (const_mat 0) ex_coef = 0"
  "relax_loss (ex_params n meth) (const_mat 0) (const_mat 0) = 0"
  "L1_penalty (ex_params n meth) ex_coef = 0"
  "nonlin_ens_loss (ex_params n meth) ex_coef = 1 / 2"
  "cubic_ens_loss (ex_params n meth) ex_coef = 9 / 2"
proof -
  have f: "n_tgts (ex_params n meth) = 1" "n_features (ex_params n meth) = 2"
    "n_samples (ex_params n meth) = 1" "threshold (ex_params n meth) = 0"
    "eta (ex_params n meth) = 1" "alpha (ex_params n meth) = 1" "beta (ex_params n meth) = 1"
    by (simp_all add: ex_params_def)
  show "sindy_loss (ex_params n meth) (const_mat 0) (const_mat 0) ex_coef = 0"
    by (simp add: sindy_loss_def f const_mat_def)
  show "relax_loss (ex_params n meth) (const_mat 0) (const_mat 0) = 0"
    by (simp add: relax_loss_def f const_mat_def)
  show "L1_penalty (ex_params n meth) ex_coef = 0"
    by (simp add: L1_penalty_def f)
  show "nonlin_ens_loss (ex_params n meth) ex_coef = 1 / 2"
    by (simp add: nonlin_ens_loss_def f ex_Qijk)
  show "cubic_ens_loss (ex_params n meth) ex_coef = 9 / 2"
    by (simp add: cubic_ens_loss_def Qijk_permsum_def f ex_Qijk)
qed

lemma ex_PQ_built: "build_PQ [(0, [1]), (1, [2])] = Inr ex_PQ"
proof -
  have wf: "wf_polyterms 1 [(0, [1]), (1, [2])]"
    by (simp add: wf_polyterms_def lin_exps_def pure_exps_def mixed_exps_def)
  have "PQ_entry 1 [(0, [1]), (1, [2])] (set (List.product [0..<1] [0..<1])) ix =
      (if ix = (0, 0, 0, 0, 1) then Some 1 else None)" for ix
    by (cases ix) (auto simp: PQ_entry_def pure_exps_def nth_Cons split: nat.splits)
  then show ?thesis
    using build_PQ_value [OF wf] by (auto simp: ex_PQ_def zeros_def fun_eq_iff)
qed

text \<open>
  Claim C8.  In local mode, for the one-variable model \<open>x' = x\<^sup>2\<close> with all weights 1, the
  recorded objective is 1, twice the nonlinear-energy penalty 1/2, while the sum the claim
  describes is 1/2 + 9/2 = 5: the cubic-symmetry penalty is left out and the
  nonlinear-energy penalty is counted twice.
\<close>

theorem objective_local_counts_nonlin_twice:
  "objective (ex_params 3 ''local'') (const_mat 0) (const_mat 0) ex_coef (const_mat 0) (const_mat 0) = 1 \<and>
   documented_objective (ex_params 3 ''local'') (const_mat 0) (const_mat 0) ex_coef (const_mat 0)
     (const_mat 0) = 5"
proof -
  have m: "self_method (ex_params 3 ''local'') = ''local''" by (simp add: ex_params_def)
  show ?thesis by (simp add: objective_local [OF m] documented_objective_def m ex_losses)
qed

section \<open>The parameter guard\<close>

lemma eta_defaults_fields:
  "self_eta (fst (eta_defaults a)) =
     Some (case self_eta a of None \<Rightarrow> 100000000000000000000 | Some e \<Rightarrow> e)"
  "self_alpha_m (fst (eta_defaults a)) =
     Some (case self_eta a of None \<Rightarrow> 1000000000000000000
           | Some e \<Rightarrow> (case self_alpha_m a of None \<Rightarrow> e * (1 / 100) | Some am \<Rightarrow> am))"
  "self_alpha_A (fst (eta_defaults a)) =
     Some (case self_eta a of None \<Rightarrow> 100000000000000000000
           | Some e \<Rightarrow> (case self_alpha_A a of None \<Rightarrow> e | Some aA \<Rightarrow> aA))"
  "self_gamma (fst (eta_defaults a)) = self_gamma a"
  "self_tol (fst (eta_defaults a)) = self_tol a"
  "self_tol_m (fst (eta_defaults a)) = self_tol_m a"
  "self_eps_solver (fst (eta_defaults a)) = self_eps_solver a"
  "self_inequality_constraints (fst (eta_defaults a)) = self_inequality_constraints a"
  "self_threshold (fst (eta_defaults a)) = self_threshold a"
  "self_m0 (fst (eta_defaults a)) = self_m0 a"
  "self_A0 (fst (eta_defaults a)) = self_A0 a"
  "self_n_tgts (fst (eta_defaults a)) = self_n_tgts a"
  by (auto simp: eta_defaults_def Let_def split: option.splits)

lemma alpha_beta_defaults_fields:
  "self_gamma (fst (alpha_beta_defaults a)) = self_gamma a"
  "self_tol (fst (alpha_beta_defaults a)) = self_tol a"
  "self_tol_m (fst (alpha_beta_defaults a)) = self_tol_m a"
  "self_eps_solver (fst (alpha_beta_defaults a)) = self_eps_solver a"
  "self_inequality_constraints (fst (alpha_beta_defaults a)) = self_inequality_constraints a"
  "self_threshold (fst (alpha_beta_defaults a)) = self_threshold a"
  "self_m0 (fst (alpha_beta_defaults a)) = self_m0 a"
  "self_A0 (fst (alpha_beta_defaults a)) = self_A0 a"
  "self_n_tgts (fst (alpha_beta_defaults a)) = self_n_tgts a"
  by (simp_all add: alpha_beta_defaults_def Let_def split: prod.splits)

lemma range_checks_None:
  "range_checks e am aA a = None \<longleftrightarrow>
     \<not> (am < 0 \<or> e < am) \<and> \<not> (aA < 0 \<or> e < aA) \<and> self_gamma a < 0 \<and>
     0 < self_tol a \<and> 0 < self_tol_m a \<and> 0 < self_eps_solver a \<and>
     \<not> (self_inequality_constraints a \<and> self_threshold a = 0)"
  by (auto simp: range_checks_def)

lemma guard_eq:
  "post_init_guard rand a =
     (if lower (self_thresholder a) \<notin> {''l1'', ''l2'', ''weighted_l1'', ''weighted_l2''}
      then Inl (ValueError ''Regularizer must be (weighted) L1 or L2'')
      else
        let e = (case self_eta a of None \<Rightarrow> 100000000000000000000 | Some e \<Rightarrow> e);
            am = (case self_eta a of None \<Rightarrow> 1000000000000000000
                  | Some e \<Rightarrow> (case self_alpha_m a of None \<Rightarrow> e * (1 / 100) | Some am \<Rightarrow> am));
            aA = (case self_eta a of None \<Rightarrow> 100000000000000000000
                  | Some e \<Rightarrow> (case self_alpha_A a of None \<Rightarrow> e | Some aA \<Rightarrow> aA));
            a2 = fst (alpha_beta_defaults (fst (eta_defaults a)))
        in if e \<le> 0 then Inl (ValueError ''eta must be positive'')
           else (case range_checks e am aA a2 of
                   Some err \<Rightarrow> Inl err
                 | None \<Rightarrow> Inr (default_A0_m0 rand a2,
                     snd (eta_defaults a) @ snd (alpha_beta_defaults (fst (eta_defaults a))))))"
  unfolding post_init_guard_def Let_def by (simp only: eta_defaults_fields prod.case option.case list.set)

lemma guard_raises_iff: "isl (post_init_guard rand a) \<longleftrightarrow> config_invalid a"
proof -
  let ?a2 = "fst (alpha_beta_defaults (fst (eta_defaults a)))"
  have f: "self_gamma ?a2 = self_gamma a" "self_tol ?a2 = self_tol a" "self_tol_m ?a2 = self_tol_m a"
    "self_eps_solver ?a2 = self_eps_solver a"
    "self_inequality_constraints ?a2 = self_inequality_constraints a"
    "self_threshold ?a2 = self_threshold a"
    by (simp_all add: alpha_beta_defaults_fields eta_defaults_fields)
  have rc: "isl (case range_checks e am aA ?a2 of Some err \<Rightarrow> Inl err | None \<Rightarrow> Inr v) \<longleftrightarrow>
      range_checks e am aA ?a2 \<noteq> None" for e am aA and v :: "attrs \<times> warning list"
    by (cases "range_checks e am aA ?a2") simp_all
  show ?thesis
    unfolding guard_eq Let_def config_invalid_def
    by (cases "self_eta a"; cases "self_alpha_m a"; cases "self_alpha_A a")
       (auto simp: rc range_checks_None f)
qed

lemma guard_default_m0:
  assumes "post_init_guard rand b = Inr (b', w')"
  shows "self_m0 b' = (case self_m0 b of
            None \<Rightarrow> Some (\<lambda>i. (rand 1 (self_n_tgts b) i - 1) * 2) | Some m \<Rightarrow> Some m)"
proof -
  let ?a2 = "fst (alpha_beta_defaults (fst (eta_defaults b)))"
  have f: "self_m0 ?a2 = self_m0 b" "self_n_tgts ?a2 = self_n_tgts b"
    by (simp_all add: alpha_beta_defaults_fields eta_defaults_fields)
  have "b' = default_A0_m0 rand ?a2"
    using assms unfolding guard_eq Let_def by (auto split: if_splits option.splits)
  then show ?thesis by (auto simp: default_A0_m0_def Let_def f split: option.splits)
qed


lemma lower_l1: "lower ''l1'' = ''l1''" "lower ''L1'' = ''l1''"
  by (simp_all add: lower_def lower_char_def)

lemma ex_attrs_valid: "\<not> config_invalid ex_attrs"
  by (simp add: config_invalid_def ex_attrs_def lower_l1)



text \<open>
  Claim C10.  When the guard accepts a configuration that has no \<open>m0\<close>, the \<open>m0\<close> it stores is
  the vector drawn right after seeding the generator with 1, shifted by \<open>- 1\<close> and doubled;
  it depends on nothing but the number of targets, and each of its entries lies in
  \<open>[-2, 0)\<close> because the generator returns numbers in \<open>[0, 1)\<close>.
\<close>

theorem default_m0:
  assumes "post_init_guard rand a = Inr (a', w)" and "self_m0 a = None"
    and "\<forall>i < self_n_tgts a. 0 \<le> rand 1 (self_n_tgts a) i \<and> rand 1 (self_n_tgts a) i < 1"
  shows "\<exists>m. self_m0 a' = Some m \<and>
           (\<forall>i < self_n_tgts a. m i = (rand 1 (self_n_tgts a) i - 1) * 2 \<and> - 2 \<le> m i \<and> m i < 0) \<and>
           (\<forall>b b' w'. post_init_guard rand b = Inr (b', w') \<and> self_m0 b = None \<and>
                self_n_tgts b = self_n_tgts a \<longrightarrow> self_m0 b' = Some m)"
proof -
  have gen: "self_m0 b' = Some (\<lambda>i. (rand 1 (self_n_tgts b) i - 1) * 2)"
    if "post_init_guard rand b = Inr (b', w')" "self_m0 b = None" for b b' w'
    using guard_default_m0 [OF that(1)] that(2) by simp
  let ?m = "\<lambda>i. (rand 1 (self_n_tgts a) i - 1) * 2"
  have "self_m0 a' = Some ?m" by (rule gen [OF assms(1,2)])
  moreover have "\<forall>i < self_n_tgts a. ?m i = (rand 1 (self_n_tgts a) i - 1) * 2 \<and> - 2 \<le> ?m i \<and> ?m i < 0"
    using assms(3) by auto
  moreover have "\<forall>b b' w'. post_init_guard rand b = Inr (b', w') \<and> self_m0 b = None \<and>
                self_n_tgts b = self_n_tgts a \<longrightarrow> self_m0 b' = Some ?m"
    using gen by auto
  ultimately show ?thesis by blast
qed

theorem default_m0_witness:
  "\<exists>a' w. post_init_guard ex_rand ex_attrs = Inr (a', w) \<and> self_m0 ex_attrs = None \<and>
     (\<forall>i < self_n_tgts ex_attrs. 0 \<le> ex_rand 1 (self_n_tgts ex_attrs) i \<and>
         ex_rand 1 (self_n_tgts ex_attrs) i < 1) \<and>
     (\<exists>m. self_m0 a' = Some m \<and> m 0 = - 1 \<and> m 1 = - 1 \<and> m 2 = - 1)"
proof -
  have "\<not> isl (post_init_guard ex_rand ex_attrs)"
    using ex_attrs_valid by (simp add: guard_raises_iff)
  then obtain a' w where g: "post_init_guard ex_rand ex_attrs = Inr (a', w)"
    by (cases "post_init_guard ex_rand ex_attrs") auto
  have n: "self_m0 ex_attrs = None" "self_n_tgts ex_attrs = 3" by (simp_all add: ex_attrs_def)
  have r: "\<forall>i < self_n_tgts ex_attrs. 0 \<le> ex_rand 1 (self_n_tgts ex_attrs) i \<and>
         ex_rand 1 (self_n_tgts ex_attrs) i < 1"
    by (simp add: ex_rand_def)
  obtain m where m: "self_m0 a' = Some m"
      "\<forall>i < self_n_tgts ex_attrs. m i = (ex_rand 1 (self_n_tgts ex_attrs) i - 1) * 2"
    using default_m0 [OF g n(1) r] by blast
  have "m 0 = - 1 \<and> m 1 = - 1 \<and> m 2 = - 1" using m(2) by (simp add: n(2) ex_rand_def)
  then show ?thesis using g n(1) r m(1) by blast
qed

section \<open>Eigenvalues after the clip\<close>

lemma clip_fold:
  "m \<le> r \<Longrightarrow>
   fold (\<lambda>i A'. if gamma < ev i then A'(i := (A' i)(i := gamma)) else A') [0..<m] (np_diag ev) =
     (\<lambda>i j. if i = j then (if i < m then min (ev i) gamma else ev i) else 0)"
proof (induction m)
  case 0
  then show ?case by (simp add: np_diag_def fun_eq_iff)
next
  case (Suc m)
  then show ?case by (auto simp: fun_eq_iff min_def less_Suc_eq)
qed

lemma clip_diag_entries:
  "i < r \<Longrightarrow> clip_diag gamma r ev i j = (if i = j then min (ev i) gamma else 0)"
  by (simp add: clip_diag_def clip_fold [OF order_refl])

lemma sum_diag_right:
  "j < r \<Longrightarrow> (\<Sum>k<r. f k * (if k = j then d k else 0)) = f j * d j" for f d :: "nat \<Rightarrow> real"
proof -
  assume j: "j < r"
  have "(\<Sum>k<r. f k * (if k = j then d k else 0)) = (\<Sum>k<r. if k = j then f j * d j else 0)"
    by (rule sum.cong) auto
  also have "\<dots> = f j * d j" using j by simp
  finally show ?thesis .
qed

lemma sum_diag_left:
  "i < r \<Longrightarrow> (\<Sum>k<r. (if i = k then d i else 0) * f k) = d i * f i" for f d :: "nat \<Rightarrow> real"
proof -
  assume i: "i < r"
  have "(\<Sum>k<r. (if i = k then d i else 0) * f k) = (\<Sum>k<r. if k = i then d i * f i else 0)"
    by (rule sum.cong) auto
  also have "\<dots> = d i * f i" using i by simp
  finally show ?thesis .
qed

lemma sum_swap_assoc:
  "(\<Sum>j<r. (\<Sum>k<r. X k * Y k j) * x j) = (\<Sum>k<r. X k * (\<Sum>j<r. Y k j * x j))"
  for X x :: "nat \<Rightarrow> real" and Y :: "nat \<Rightarrow> nat \<Rightarrow> real"
proof -
  have "(\<Sum>j<r. (\<Sum>k<r. X k * Y k j) * x j) = (\<Sum>j<r. \<Sum>k<r. X k * (Y k j * x j))"
    by (simp add: sum_distrib_right mult.assoc)
  also have "\<dots> = (\<Sum>k<r. \<Sum>j<r. X k * (Y k j * x j))" by (rule sum.swap)
  also have "\<dots> = (\<Sum>k<r. X k * (\<Sum>j<r. Y k j * x j))" by (simp add: sum_distrib_left)
  finally show ?thesis .
qed

lemma matmul3_entries:
  assumes "i < r"
  shows "matmul r (matmul r V (clip_diag gamma r ev)) Vi i j =
     (\<Sum>k<r. V i k * min (ev k) gamma * Vi k j)"
proof -
  have "(\<Sum>l<r. V i l * clip_diag gamma r ev l k) = V i k * min (ev k) gamma" if "k < r" for k
  proof -
    have "(\<Sum>l<r. V i l * clip_diag gamma r ev l k)
        = (\<Sum>l<r. V i l * (if l = k then min (ev l) gamma else 0))"
      by (rule sum.cong) (simp_all add: clip_diag_entries)
    then show ?thesis using sum_diag_right [OF that, of "V i" "\<lambda>l. min (ev l) gamma"] by simp
  qed
  then show ?thesis by (simp add: matmul_def)
qed

text \<open>
  Claim C3.  Let \<open>eigh\<close> return for \<open>A_old\<close> the vector \<open>eigvals\<close> of its eigenvalues and
  for \<open>PW\<close> the eigenvector matrix \<open>V\<close>, and let \<open>np_inv\<close> return the inverse of \<open>V\<close> (it
  exists: for a symmetric \<open>PW\<close> the matrix \<open>V\<close> is orthogonal).  Then \<open>_update_A\<close> returns a
  matrix whose eigenvalues are exactly the eigenvalues of \<open>A_old\<close> clipped from above to
  \<open>gamma\<close>, that is the numbers \<open>min(eigvals[i], gamma)\<close>; all of them are at most \<open>gamma\<close>;
  and the columns of \<open>V\<close>, the eigenvectors of \<open>PW\<close>, are its eigenvectors.
\<close>

theorem update_A_eigenvalues:
  assumes eA: "eigh r A_old = (eigvals, eigvecs)" and eP: "eigh r PW = (eigPW, V)"
    and spec: "\<forall>\<mu>. is_eigenvalue r A_old \<mu> \<longleftrightarrow> (\<exists>i<r. \<mu> = eigvals i)"
    and iv: "np_inv r V = Some Vi" and inv: "is_inverse r V Vi"
  shows "\<exists>R. update_A eigh np_inv gamma r A_old PW = Inr R \<and>
          (\<forall>\<nu>. is_eigenvalue r R \<nu> \<longleftrightarrow> (\<exists>\<mu>. is_eigenvalue r A_old \<mu> \<and> \<nu> = min \<mu> gamma)) \<and>
          (\<forall>\<nu>. is_eigenvalue r R \<nu> \<longleftrightarrow> (\<exists>i<r. \<nu> = min (eigvals i) gamma)) \<and>
          (\<forall>\<nu>. is_eigenvalue r R \<nu> \<longrightarrow> \<nu> \<le> gamma) \<and>
          (\<forall>i<r. \<forall>j<r. (\<Sum>k<r. R i k * V k j) = V i j * min (eigvals j) gamma)"
proof -
  define d where "d = (\<lambda>k. min (eigvals k) gamma)"
  define R where "R = matmul r (matmul r V (clip_diag gamma r eigvals)) Vi"
  have upd: "update_A eigh np_inv gamma r A_old PW = Inr R"
    by (simp add: update_A_def eA eP iv R_def)
  have Rij: "R i j = (\<Sum>k<r. V i k * d k * Vi k j)" if "i < r" for i j
    unfolding R_def d_def by (rule matmul3_entries [OF that])
  have ViV: "(\<Sum>k<r. Vi i k * V k j) = (if i = j then 1 else 0)" if "i < r" "j < r" for i j
    using inv that by (simp add: is_inverse_def)
  have VVi: "(\<Sum>k<r. V i k * Vi k j) = (if i = j then 1 else 0)" if "i < r" "j < r" for i j
    using inv that by (simp add: is_inverse_def)
  text \<open>\<open>R\<close> applied to a vector, through the coordinates \<open>y = Vi x\<close>.\<close>
  have Rx: "(\<Sum>j<r. R i j * x j) = (\<Sum>k<r. V i k * (d k * (\<Sum>j<r. Vi k j * x j)))"
    if "i < r" for i and x :: vec
  proof -
    have "(\<Sum>j<r. R i j * x j) = (\<Sum>j<r. (\<Sum>k<r. (V i k * d k) * Vi k j) * x j)"
      by (rule sum.cong) (simp_all add: Rij [OF that])
    also have "\<dots> = (\<Sum>k<r. (V i k * d k) * (\<Sum>j<r. Vi k j * x j))" by (rule sum_swap_assoc)
    finally show ?thesis by (simp add: mult.assoc)
  qed
  text \<open>The columns of \<open>V\<close> are eigenvectors of \<open>R\<close>.\<close>
  have RV: "(\<Sum>k<r. R i k * V k j) = V i j * d j" if "i < r" "j < r" for i j
  proof -
    have "(\<Sum>k<r. R i k * V k j) = (\<Sum>k<r. V i k * (d k * (\<Sum>l<r. Vi k l * V l j)))"
      by (rule Rx [OF that(1), of "\<lambda>k. V k j"])
    also have "\<dots> = (\<Sum>k<r. (V i k * d k) * (if k = j then 1 else 0))"
      by (rule sum.cong) (simp_all add: ViV that(2))
    also have "\<dots> = (\<Sum>k<r. V i k * (if k = j then d k else 0))"
      by (rule sum.cong) simp_all
    also have "\<dots> = V i j * d j" by (rule sum_diag_right [OF that(2)])
    finally show ?thesis .
  qed
  have col_nonzero: "\<exists>i<r. V i j \<noteq> 0" if "j < r" for j
  proof (rule ccontr)
    assume "\<not> (\<exists>i<r. V i j \<noteq> 0)"
    then have "(\<Sum>k<r. Vi j k * V k j) = 0" by simp
    then show False using ViV [OF that that] by simp
  qed
  have ev1: "is_eigenvalue r R (d j)" if "j < r" for j
    unfolding is_eigenvalue_def
  proof (intro exI [of _ "\<lambda>i. V i j"] conjI allI impI)
    show "\<exists>i<r. V i j \<noteq> 0" by (rule col_nonzero [OF that])
    show "(\<Sum>k<r. R i k * V k j) = d j * V i j" if "i < r" for i
      using RV [OF that \<open>j < r\<close>] by (simp add: mult.commute)
  qed
  have ev2: "\<exists>i<r. \<mu> = d i" if ev: "is_eigenvalue r R \<mu>" for \<mu>
  proof -
    obtain x where x: "\<exists>i<r. x i \<noteq> 0" "\<forall>i<r. (\<Sum>j<r. R i j * x j) = \<mu> * x i"
      using ev unfolding is_eigenvalue_def by blast
    define y where "y = (\<lambda>k. \<Sum>j<r. Vi k j * x j)"
    have Vy: "(\<Sum>k<r. V i k * y k) = x i" if "i < r" for i
    proof -
      have "(\<Sum>k<r. V i k * y k) = (\<Sum>j<r. (\<Sum>k<r. V i k * Vi k j) * x j)"
        unfolding y_def by (rule sum_swap_assoc [symmetric])
      also have "\<dots> = (\<Sum>j<r. (if i = j then 1 else 0) * x j)"
        by (rule sum.cong) (simp_all add: VVi that)
      also have "\<dots> = 1 * x i" by (rule sum_diag_left [OF that, of "\<lambda>_. 1" x])
      finally show ?thesis by simp
    qed
    have ynz: "\<exists>k<r. y k \<noteq> 0"
    proof (rule ccontr)
      assume "\<not> (\<exists>k<r. y k \<noteq> 0)"
      then have "(\<Sum>k<r. V i k * y k) = 0" for i by simp
      then have "x i = 0" if "i < r" for i using Vy [OF that] by simp
      then show False using x(1) by auto
    qed
    have dy: "d k * y k = \<mu> * y k" if k: "k < r" for k
    proof -
      have "\<mu> * y k = (\<Sum>i<r. Vi k i * (\<mu> * x i))"
        by (simp add: y_def sum_distrib_left mult.left_commute)
      also have "\<dots> = (\<Sum>i<r. Vi k i * (\<Sum>j<r. R i j * x j))"
        by (rule sum.cong) (simp_all add: x(2))
      also have "\<dots> = (\<Sum>i<r. Vi k i * (\<Sum>l<r. V i l * (d l * y l)))"
        by (rule sum.cong) (simp_all add: Rx y_def)
      also have "\<dots> = (\<Sum>l<r. (\<Sum>i<r. Vi k i * V i l) * (d l * y l))"
        by (rule sum_swap_assoc [symmetric])
      also have "\<dots> = (\<Sum>l<r. (if k = l then 1 else 0) * (d l * y l))"
        by (rule sum.cong) (simp_all add: ViV k)
      also have "\<dots> = 1 * (d k * y k)"
        by (rule sum_diag_left [OF k, of "\<lambda>_. 1" "\<lambda>l. d l * y l"])
      finally show ?thesis by auto
    qed
    obtain k where k: "k < r" "y k \<noteq> 0" using ynz by blast
    then have "\<mu> = d k" using dy [OF k(1)] by simp
    then show ?thesis using k(1) by blast
  qed
  have le: "\<mu> \<le> gamma" if "is_eigenvalue r R \<mu>" for \<mu>
    using ev2 [OF that] by (auto simp: d_def)
  have iff: "is_eigenvalue r R \<nu> \<longleftrightarrow> (\<exists>i<r. \<nu> = min (eigvals i) gamma)" for \<nu>
    using ev1 ev2 unfolding d_def by blast
  have iff_old: "is_eigenvalue r R \<nu> \<longleftrightarrow> (\<exists>\<mu>. is_eigenvalue r A_old \<mu> \<and> \<nu> = min \<mu> gamma)" for \<nu>
  proof
    assume "is_eigenvalue r R \<nu>"
    then obtain i where "i < r" "\<nu> = min (eigvals i) gamma" using iff by blast
    moreover have "is_eigenvalue r A_old (eigvals i)" using spec \<open>i < r\<close> by blast
    ultimately show "\<exists>\<mu>. is_eigenvalue r A_old \<mu> \<and> \<nu> = min \<mu> gamma" by blast
  next
    assume "\<exists>\<mu>. is_eigenvalue r A_old \<mu> \<and> \<nu> = min \<mu> gamma"
    then obtain \<mu> where m: "is_eigenvalue r A_old \<mu>" "\<nu> = min \<mu> gamma" by blast
    then obtain i where "i < r" "\<mu> = eigvals i" using spec by blast
    then show "is_eigenvalue r R \<nu>" using iff m(2) by blast
  qed
  have RV': "\<forall>i<r. \<forall>j<r. (\<Sum>k<r. R i k * V k j) = V i j * min (eigvals j) gamma"
    using RV unfolding d_def by blast
  show ?thesis
  proof (intro exI [of _ R] conjI)
    show "update_A eigh np_inv gamma r A_old PW = Inr R" by (rule upd)
    show "\<forall>\<nu>. is_eigenvalue r R \<nu> \<longleftrightarrow> (\<exists>\<mu>. is_eigenvalue r A_old \<mu> \<and> \<nu> = min \<mu> gamma)"
      using iff_old by simp
    show "\<forall>\<nu>. is_eigenvalue r R \<nu> \<longleftrightarrow> (\<exists>i<r. \<nu> = min (eigvals i) gamma)"
      using iff by simp
    show "\<forall>\<nu>. is_eigenvalue r R \<nu> \<longrightarrow> \<nu> \<le> gamma" using le by simp
    show "\<forall>i<r. \<forall>j<r. (\<Sum>k<r. R i k * V k j) = V i j * min (eigvals j) gamma" by (rule RV')
  qed
qed

lemma diag_eigenvalues:
  "is_eigenvalue r (np_diag d) \<mu> \<longleftrightarrow> (\<exists>i<r. \<mu> = d i)"
proof
  assume "is_eigenvalue r (np_diag d) \<mu>"
  then obtain x where x: "\<exists>i<r. x i \<noteq> 0" "\<forall>i<r. (\<Sum>j<r. np_diag d i j * x j) = \<mu> * x i"
    unfolding is_eigenvalue_def by blast
  obtain i where i: "i < r" "x i \<noteq> 0" using x(1) by blast
  have "(\<Sum>j<r. np_diag d i j * x j) = d i * x i"
    unfolding np_diag_def by (rule sum_diag_left [OF i(1)])
  moreover have "(\<Sum>j<r. np_diag d i j * x j) = \<mu> * x i" using x(2) i(1) by blast
  ultimately have "d i * x i = \<mu> * x i" by (simp only:)
  then have "\<mu> = d i" using i(2) by simp
  then show "\<exists>i<r. \<mu> = d i" using i(1) by blast
next
  assume "\<exists>i<r. \<mu> = d i"
  then obtain i where i: "i < r" "\<mu> = d i" by blast
  show "is_eigenvalue r (np_diag d) \<mu>"
    unfolding is_eigenvalue_def
  proof (intro exI [of _ "\<lambda>k. if k = i then 1 else 0"] conjI allI impI)
    show "\<exists>k<r. (if k = i then 1 else 0 :: real) \<noteq> 0" using i(1) by auto
    show "(\<Sum>j<r. np_diag d k j * (if j = i then 1 else 0)) = \<mu> * (if k = i then 1 else 0)"
      if "k < r" for k
    proof -
      have "(\<Sum>j<r. np_diag d k j * (if j = i then 1 else 0)) = np_diag d k i * 1"
        by (rule sum_diag_right [OF i(1), of "np_diag d k" "\<lambda>_. 1"])
      then show ?thesis by (simp add: np_diag_def i(2))
    qed
  qed
qed

theorem update_A_eigenvalues_witness:
  "ex_eigh 2 (np_diag ex_eigvals) = (ex_eigvals, eye) \<and>
   (\<forall>\<mu>. is_eigenvalue 2 (np_diag ex_eigvals) \<mu> \<longleftrightarrow> (\<exists>i<2. \<mu> = ex_eigvals i)) \<and>
   ex_inv 2 eye = Some eye \<and> is_inverse 2 eye eye \<and>
   (\<exists>R. update_A ex_eigh ex_inv (- 1) 2 (np_diag ex_eigvals) (np_diag ex_eigvals) = Inr R \<and>
      is_eigenvalue 2 R (- 1) \<and> is_eigenvalue 2 R (- 2) \<and> \<not> is_eigenvalue 2 R 1)"
proof -
  have e: "ex_eigh 2 (np_diag ex_eigvals) = (ex_eigvals, eye)" by (simp add: ex_eigh_def)
  have sp: "\<forall>\<mu>. is_eigenvalue 2 (np_diag ex_eigvals) \<mu> \<longleftrightarrow> (\<exists>i<2. \<mu> = ex_eigvals i)"
    by (simp add: diag_eigenvalues)
  have i: "ex_inv 2 eye = Some eye" by (simp add: ex_inv_def)
  have inv: "is_inverse 2 eye eye"
    by (simp add: is_inverse_def eye_def lessThan_Suc numeral_2_eq_2 less_Suc_eq)
  obtain R where R: "update_A ex_eigh ex_inv (- 1) 2 (np_diag ex_eigvals) (np_diag ex_eigvals) = Inr R"
      "\<forall>\<nu>. is_eigenvalue 2 R \<nu> \<longleftrightarrow> (\<exists>i<2. \<nu> = min (ex_eigvals i) (- 1))"
    using update_A_eigenvalues [where eigh = ex_eigh and np_inv = ex_inv and r = 2 and gamma = "- 1"
        and A_old = "np_diag ex_eigvals" and PW = "np_diag ex_eigvals", OF e e sp i inv] by blast
  have "is_eigenvalue 2 R (- 1)" using R(2) by (auto simp: ex_eigvals_def intro!: exI [of _ 0])
  moreover have "is_eigenvalue 2 R (- 2)" using R(2) by (auto simp: ex_eigvals_def intro!: exI [of _ 1])
  moreover have "\<not> is_eigenvalue 2 R 1" using R(2) by (auto simp: ex_eigvals_def min_def)
  ultimately have "\<exists>R. update_A ex_eigh ex_inv (- 1) 2 (np_diag ex_eigvals) (np_diag ex_eigvals) = Inr R \<and>
      is_eigenvalue 2 R (- 1) \<and> is_eigenvalue 2 R (- 2) \<and> \<not> is_eigenvalue 2 R 1"
    using R(1) by blast
  then show ?thesis using e sp i inv by (intro conjI)
qed

end
